theory Spec2Isabelle
  imports
    Complex_Main
    "HOL-Library.AList"
    "HOL-Library.Char_ord"
    "HOL-Library.List_Lexorder"
    "HOL-Library.Multiset"
begin

section \<open>The FLORES-200 DataPipes recipe\<close>

text \<open>
  The notebook \<^verbatim>\<open>python/mlcroissant/recipes/flores200_datapipes.ipynb\<close> builds a label
  space from the training records, composes two data pipelines, and drives a training and
  an evaluation loop for a configurable, possibly fractional, number of epochs.

  Python floats are idealised as \<^typ>\<open>real\<close>: comparisons between a loop counter and a
  float cap are exact in Python, and none of the properties below depends on rounding.
  Every \<^verbatim>\<open>raise\<close> of the source is a value of \<open>py_error\<close>.
\<close>

subsection \<open>Errors and dictionaries\<close>

text \<open>
  A \<^verbatim>\<open>ZeroDivisionError\<close> carries the place of the division that raised it, as the
  traceback of the exception does: the periodic progress report inside a loop, the quotient
  after a loop, or the step arithmetic of the epoch driver.
\<close>

datatype division_site = Report | Final | Driver

datatype py_error =
    KeyError string
  | ZeroDivisionError division_site
  | TypeError

text \<open>
  A Python \<^verbatim>\<open>dict\<close> keeps its keys in insertion order; storing under a key that is
  present replaces the value in place. That is \<^const>\<open>AList.update\<close> on an association
  list.
\<close>

type_synonym ('k, 'v) dict = "('k \<times> 'v) list"

definition getitem :: "(string, 'v) dict \<Rightarrow> string \<Rightarrow> py_error + 'v" where
  "getitem d k = (case map_of d k of None \<Rightarrow> Inl (KeyError k) | Some v \<Rightarrow> Inr v)"

definition py_div :: "division_site \<Rightarrow> real \<Rightarrow> real \<Rightarrow> py_error + real" where
  "py_div site a b = (if b = 0 then Inl (ZeroDivisionError site) else Inr (a / b))"

text \<open>\<^verbatim>\<open>int(x)\<close> on a float truncates towards zero.\<close>

definition py_int :: "real \<Rightarrow> int" where
  "py_int x = (if 0 \<le> x then \<lfloor>x\<rfloor> else \<lceil>x\<rceil>)"

subsection \<open>Hyperparameters\<close>

text \<open>
  The hyperparameters that the environment can override are the fields of \<open>config\<close>; the
  others are constants of the notebook. Sequence length and batch sizes are counts.
\<close>

record config =
  MAX_LENGTH :: nat
  TRAIN_BATCH_SIZE :: nat
  TEST_BATCH_SIZE :: nat
  NUM_EPOCHS :: real
  FRACTION_TEST :: real

definition NUM_TRAIN_WORKERS :: nat where "NUM_TRAIN_WORKERS = 0"
definition NUM_TEST_WORKERS :: nat where "NUM_TEST_WORKERS = 0"
definition NUM_TRAIN_SAMPLES :: nat where "NUM_TRAIN_SAMPLES = 203388"
definition NUM_TEST_SAMPLES :: nat where "NUM_TEST_SAMPLES = 206448"

subsection \<open>Records of the dataset\<close>

text \<open>
  The adapter yields one mapping per record; with the specification of the notebook the
  fields \<^verbatim>\<open>translation\<close> and \<^verbatim>\<open>language\<close> are decoded text.
\<close>

record row =
  translation :: string
  language :: string

subsection \<open>The label space\<close>

text \<open>
  \<^verbatim>\<open>classes_to_int = {y: i for i, y in enumerate(sorted(set(x["language"] for x in train_data_pipe)))}\<close>
  \<^verbatim>\<open>int_to_classes = {i: y for (y, i) in classes_to_int.items()}\<close>
\<close>

definition classes_to_int :: "row list \<Rightarrow> (string, nat) dict" where
  "classes_to_int train_data_pipe =
     fold (\<lambda>(i, y) d. AList.update y i d)
       (enumerate 0 (sorted_list_of_set (set (map language train_data_pipe)))) []"

definition int_to_classes :: "(string, nat) dict \<Rightarrow> (nat, string) dict" where
  "int_to_classes c2i = fold (\<lambda>(y, i) d. AList.update i y d) c2i []"

subsection \<open>Tokenisation and the per-record map function\<close>

text \<open>
  What \<^verbatim>\<open>unpack_row\<close> returns: three integer sequences and the integer target.
\<close>

record sample =
  input_ids :: "int list"
  attention_mask :: "int list"
  token_type_ids :: "int list"
  targets :: nat

text \<open>
  The tokenizer's answer with \<^verbatim>\<open>return_tensors="np"\<close>: three two-dimensional
  arrays, each the list of its rows.
\<close>

record tokenized =
  tok_input_ids :: "int list list"
  tok_attention_mask :: "int list list"
  tok_token_type_ids :: "int list list"

text \<open>
  The keyword arguments of the call of the tokenizer in \<^verbatim>\<open>unpack_row\<close>.
\<close>

record tokenizer_kwargs =
  max_length :: nat
  padding :: string
  truncation :: bool
  return_tensors :: string

text \<open>
  The tokenizer is the pretrained model's own, supplied by an external library; what it
  answers is not in the sources. It is a parameter of \<^verbatim>\<open>unpack_row\<close> (the value of
  \<^verbatim>\<open>get_tokenizer()\<close>): a function from the text and the keyword arguments to the three
  arrays.
\<close>

type_synonym tokenizer = "string \<Rightarrow> tokenizer_kwargs \<Rightarrow> tokenized"

text \<open>\<^verbatim>\<open>a.reshape((-1,))\<close> lays the rows of a two-dimensional array end to end.\<close>

definition reshape_flat :: "'a list list \<Rightarrow> 'a list" where
  "reshape_flat a = concat a"

definition unpack_row ::
  "config \<Rightarrow> tokenizer \<Rightarrow> (string, nat) dict \<Rightarrow> row \<Rightarrow> py_error + sample" where
  "unpack_row cfg tokenizer c2i x =
     (let tokenized = tokenizer (translation x)
            \<lparr>max_length = MAX_LENGTH cfg, padding = ''max_length'', truncation = True,
              return_tensors = ''np''\<rparr>
      in case getitem c2i (language x) of
           Inl e \<Rightarrow> Inl e
         | Inr t \<Rightarrow>
             Inr \<lparr>input_ids = reshape_flat (tok_input_ids tokenized),
                  attention_mask = reshape_flat (tok_attention_mask tokenized),
                  token_type_ids = reshape_flat (tok_token_type_ids tokenized),
                  targets = t\<rparr>)"

subsection \<open>Data pipes\<close>

text \<open>
  One pass over a lazy sequence: the items it yields, in order, and the exception that ends
  the pass, if one does. A generator that has raised yields nothing more.
\<close>

record 'a iteration =
  yielded :: "'a list"
  raised :: "py_error option"

text \<open>
  What a pass depends on besides the data: the random picks of the shuffle, and the
  sharding the loader has set for the consumer that iterates (how many consumers there
  are, and which one this is).
\<close>

record iter_ctx =
  picks :: "nat list"
  num_of_instances :: nat
  instance_id :: nat

text \<open>
  A data pipe is an object that wraps its source: \<open>graph\<close> lists the stages applied to
  the adapter's sequence, innermost first (what \<^verbatim>\<open>to_graph\<close> draws), and \<open>iterate\<close>
  is one pass over it.
\<close>

datatype stage = Shuffler nat | ShardingFilter | Mapper

record 'a datapipe =
  graph :: "stage list"
  iterate :: "iter_ctx \<Rightarrow> 'a iteration"

text \<open>The adapter's pipe for a record set: the records in their natural order.\<close>

definition as_datapipe :: "'a list \<Rightarrow> 'a datapipe" where
  "as_datapipe record_set =
     \<lparr>graph = [], iterate = (\<lambda>ctx. \<lparr>yielded = record_set, raised = None\<rparr>)\<rparr>"

text \<open>
  Modelled from the spec: the shuffle stage of the external pipeline library keeps a
  bounded buffer, fills it, then repeatedly emits one pseudo-randomly selected buffered
  element while pulling one new element to refill, until the source is exhausted and the
  buffer drains. The buffer always holds the first \<open>buffer_size\<close> elements not yet
  emitted, so each pick selects among those; the picks are the random generator's. When
  the picks run out the rest is emitted in order.
\<close>

fun shuffle_items :: "nat \<Rightarrow> nat list \<Rightarrow> 'a list \<Rightarrow> 'a list" where
  "shuffle_items buffer_size [] xs = xs"
| "shuffle_items buffer_size (p # ps) xs =
     (if xs = [] \<or> buffer_size = 0 then xs
      else let i = p mod min buffer_size (length xs)
           in xs ! i # shuffle_items buffer_size ps (take i xs @ drop (Suc i) xs))"

definition shuffle :: "nat \<Rightarrow> 'a datapipe \<Rightarrow> 'a datapipe" where
  "shuffle buffer_size dp =
     \<lparr>graph = graph dp @ [Shuffler buffer_size],
      iterate = (\<lambda>ctx. let src = iterate dp ctx
                       in src\<lparr>yielded := shuffle_items buffer_size (picks ctx) (yielded src)\<rparr>)\<rparr>"

text \<open>
  Modelled from the spec: the shard-filter stage of the external pipeline library
  partitions the sequence across the parallel consumers deterministically by position, so
  that each element is routed to exactly one consumer: the consumer \<open>k\<close> of \<open>n\<close> keeps the
  positions congruent to \<open>k\<close> modulo \<open>n\<close>.
\<close>

definition shard_items :: "nat \<Rightarrow> nat \<Rightarrow> 'a list \<Rightarrow> 'a list" where
  "shard_items n k xs = map snd (filter (\<lambda>(i, x). i mod n = k) (enumerate 0 xs))"

definition sharding_filter :: "'a datapipe \<Rightarrow> 'a datapipe" where
  "sharding_filter dp =
     \<lparr>graph = graph dp @ [ShardingFilter],
      iterate = (\<lambda>ctx. let src = iterate dp ctx
                       in src\<lparr>yielded := shard_items (num_of_instances ctx) (instance_id ctx)
                                          (yielded src)\<rparr>)\<rparr>"

text \<open>
  Modelled from the spec: a loader with \<open>num_workers\<close> workers has that many consumers,
  and with zero workers the loading process itself is the only one, so that with zero or
  one worker the shard filter passes everything through.
\<close>

definition consumers :: "nat \<Rightarrow> nat" where
  "consumers num_workers = max 1 num_workers"

definition worker_ctx :: "nat list \<Rightarrow> nat \<Rightarrow> nat \<Rightarrow> iter_ctx" where
  "worker_ctx ps num_workers k =
     \<lparr>picks = ps, num_of_instances = consumers num_workers, instance_id = k\<rparr>"

text \<open>
  Modelled from the spec: the map stage of the external pipeline library applies the
  function to each record independently, in order; a failure inside the function
  propagates and ends the pass.
\<close>

fun map_items :: "('a \<Rightarrow> py_error + 'b) \<Rightarrow> 'a list \<Rightarrow> 'b iteration" where
  "map_items f [] = \<lparr>yielded = [], raised = None\<rparr>"
| "map_items f (x # xs) =
     (case f x of
        Inl e \<Rightarrow> \<lparr>yielded = [], raised = Some e\<rparr>
      | Inr y \<Rightarrow> (let after = map_items f xs in after\<lparr>yielded := y # yielded after\<rparr>))"

definition map_dp :: "('a \<Rightarrow> py_error + 'b) \<Rightarrow> 'a datapipe \<Rightarrow> 'b datapipe" where
  "map_dp f dp =
     \<lparr>graph = graph dp @ [Mapper],
      iterate = (\<lambda>ctx. let src = iterate dp ctx;
                           out = map_items f (yielded src)
                       in case raised out of
                            Some e \<Rightarrow> out
                          | None \<Rightarrow> out\<lparr>raised := raised src\<rparr>)\<rparr>"

definition get_train_dataset ::
  "row datapipe \<Rightarrow> (row \<Rightarrow> py_error + sample) \<Rightarrow> sample datapipe" where
  "get_train_dataset train_data_pipe unpack =
     (let train_dataset = train_data_pipe;
          train_dataset = shuffle 10000 train_dataset;
          train_dataset = sharding_filter train_dataset
      in map_dp unpack train_dataset)"

definition get_test_dataset ::
  "row datapipe \<Rightarrow> (row \<Rightarrow> py_error + sample) \<Rightarrow> sample datapipe" where
  "get_test_dataset test_data_pipe unpack =
     (let test_dataset = test_data_pipe;
          test_dataset = sharding_filter test_dataset
      in map_dp unpack test_dataset)"

subsection \<open>The batching loader\<close>

type_synonym batch = "sample list"

definition batches :: "nat \<Rightarrow> 'a list \<Rightarrow> 'a list list" where
  "batches n xs = map (\<lambda>k. take n (drop (k * n) xs)) [0..<(length xs + n - 1) div n]"

text \<open>
  Modelled from the spec: the batching loader is an external collaborator that groups the
  pipeline's output into batches of a fixed size. The notebook passes it
  \<open>num_workers = NUM_TRAIN_WORKERS = NUM_TEST_WORKERS = 0\<close>, which makes it load in its own
  process; only that loader is modelled, so the number of workers is no argument. The last
  batch may be short; when the pipeline raises, the items of the batch being assembled are
  lost with it. The argument \<open>ps\<close> stands for the random picks of this pass.
\<close>

definition DataLoader :: "'a datapipe \<Rightarrow> nat \<Rightarrow> nat list \<Rightarrow> 'a list iteration" where
  "DataLoader dataset batch_size ps =
     (let src = iterate dataset (worker_ctx ps 0 0)
      in case raised src of
           None \<Rightarrow> \<lparr>yielded = batches batch_size (yielded src), raised = None\<rparr>
         | Some e \<Rightarrow>
             \<lparr>yielded = take (length (yielded src) div batch_size)
                          (batches batch_size (yielded src)),
              raised = Some e\<rparr>)"

subsection \<open>The model, the optimizer and what the loops change\<close>

text \<open>
  The network, the loss and the optimizer are external collaborators, taken as
  parameters: \<open>forward\<close> gives the class scores of one element of a batch from the
  parameters and the mode of the module, \<open>sample_loss\<close> is the loss of one row of scores
  against its target (the cross entropy), and \<open>step\<close> is
  \<^verbatim>\<open>optimizer.zero_grad(); loss.backward(); optimizer.step()\<close> on a batch. The
  network scores the elements of a batch independently of each other, one row of scores
  per element; the randomness of its dropout in training mode is not modelled.
\<close>

record ('p, 'o) learner =
  forward :: "'p \<Rightarrow> bool \<Rightarrow> int list \<Rightarrow> int list \<Rightarrow> int list \<Rightarrow> real list"
  sample_loss :: "real list \<Rightarrow> nat \<Rightarrow> real"
  step :: "'o \<Rightarrow> 'p \<Rightarrow> batch \<Rightarrow> 'o \<times> 'p"

datatype message =
    TrainProgress real real
  | TestProgress real real real
  | EpochSummary nat real real real

datatype call = TrainCall "real option" | TestCall "real option"

text \<open>
  The objects the loops mutate: the parameters and the mode of the model, the state of the
  optimizer and the standard output. \<open>calls\<close> is a ghost log of the calls of
  \<^verbatim>\<open>train\<close> and \<^verbatim>\<open>test\<close> with their step caps.
\<close>

record ('p, 'o) world =
  params :: 'p
  training :: bool
  optimizer :: 'o
  stdout :: "message list"
  calls :: "call list"

definition model :: "('p, 'o) learner \<Rightarrow> ('p, 'o) world \<Rightarrow> batch \<Rightarrow> real list list" where
  "model L w data =
     map (\<lambda>x. forward L (params w) (training w)
                 (input_ids x) (attention_mask x) (token_type_ids x)) data"

text \<open>\<^verbatim>\<open>torch.nn.CrossEntropyLoss()\<close> averages the loss over the rows of the batch.\<close>

definition criterion :: "('p, 'o) learner \<Rightarrow> real list list \<Rightarrow> nat list \<Rightarrow> real" where
  "criterion L outputs tgts =
     (\<Sum>(out, t) \<leftarrow> zip outputs tgts. sample_loss L out t) / real (length outputs)"

definition optimizer_step :: "('p, 'o) learner \<Rightarrow> batch \<Rightarrow> ('p, 'o) world \<Rightarrow> ('p, 'o) world" where
  "optimizer_step L data w =
     (let (opt', params') = step L (optimizer w) (params w) data
      in w\<lparr>optimizer := opt', params := params'\<rparr>)"

text \<open>\<^verbatim>\<open>torch.argmax\<close> along the class axis: the first index of the largest score.\<close>

fun argmax_from :: "nat \<Rightarrow> real \<Rightarrow> nat \<Rightarrow> real list \<Rightarrow> nat" where
  "argmax_from best v i [] = best"
| "argmax_from best v i (x # xs) =
     (if v < x then argmax_from i x (Suc i) xs else argmax_from best v (Suc i) xs)"

definition argmax :: "real list \<Rightarrow> nat" where
  "argmax xs = (case xs of [] \<Rightarrow> 0 | x # rest \<Rightarrow> argmax_from 0 x 1 rest)"

text \<open>
  \<^verbatim>\<open>torch.sum((preds == targets).float()).item()\<close>: how many rows have their largest
  score at the target.
\<close>

definition correct :: "real list list \<Rightarrow> nat list \<Rightarrow> nat" where
  "correct outputs tgts = length (filter (\<lambda>(out, t). argmax out = t) (zip outputs tgts))"

subsection \<open>The training and evaluation loops\<close>

text \<open>
  \<^verbatim>\<open>if iteration > max_steps: break\<close>, with \<^verbatim>\<open>max_steps = float("inf")\<close> when no
  cap was given.
\<close>

definition past_cap :: "nat \<Rightarrow> real option \<Rightarrow> bool" where
  "past_cap iteration max_steps =
     (case max_steps of None \<Rightarrow> False | Some c \<Rightarrow> real iteration > c)"

text \<open>
  The progress line of \<^verbatim>\<open>train\<close>. The throughput shown in the line is a quotient by
  elapsed wall-clock time, which is outside the model.
\<close>

definition train_report ::
  "real \<Rightarrow> nat \<Rightarrow> ('p, 'o) world \<Rightarrow> py_error + ('p, 'o) world" where
  "train_report total_loss total_samples w =
     (case py_div Report total_loss (real total_samples) of
        Inl e \<Rightarrow> Inl e
      | Inr mean_loss \<Rightarrow>
          (let progress = real total_samples / real NUM_TRAIN_SAMPLES
           in Inr (w\<lparr>stdout := stdout w @ [TrainProgress progress mean_loss]\<rparr>)))"

text \<open>
  The \<^verbatim>\<open>for iteration, data in enumerate(dataloader, 1)\<close> loop of \<^verbatim>\<open>train\<close>. The
  arguments are the cap, the counter of \<^verbatim>\<open>enumerate\<close>, the batches the loader still
  yields and the exception that ends its pass, the two running totals, the number of loop
  bodies executed so far (a ghost counter) and the world. Pulling the next batch comes
  before the comparison with the cap, so an exception of the loader propagates even when
  the cap would have ended the loop.
\<close>

fun train_loop ::
  "('p, 'o) learner \<Rightarrow> real option \<Rightarrow> nat \<Rightarrow> batch list \<Rightarrow> py_error option
    \<Rightarrow> real \<Rightarrow> nat \<Rightarrow> nat \<Rightarrow> ('p, 'o) world
    \<Rightarrow> py_error + (real \<times> nat \<times> nat \<times> ('p, 'o) world)" where
  "train_loop L max_steps iteration [] ends total_loss total_samples steps w =
     (case ends of
        Some e \<Rightarrow> Inl e
      | None \<Rightarrow> Inr (total_loss, total_samples, steps, w))"
| "train_loop L max_steps iteration (data # rest) ends total_loss total_samples steps w =
     (if past_cap iteration max_steps then Inr (total_loss, total_samples, steps, w)
      else
        let outputs = model L w data;
            loss = criterion L outputs (map targets data);
            total_loss = total_loss + real (length outputs) * loss;
            total_samples = total_samples + length outputs
        in case (if iteration mod 100 = 0 then train_report total_loss total_samples w
                 else Inr w) of
             Inl e \<Rightarrow> Inl e
           | Inr w \<Rightarrow>
               train_loop L max_steps (Suc iteration) rest ends total_loss total_samples
                 (Suc steps) (optimizer_step L data w))"

text \<open>
  \<^verbatim>\<open>train(model, optimizer, dataloader, max_steps=None)\<close>. The result is the value
  returned (\<open>None\<close> for Python's \<^verbatim>\<open>None\<close>), the number of loop bodies executed, and
  the world afterwards.
\<close>

definition train ::
  "('p, 'o) learner \<Rightarrow> ('p, 'o) world \<Rightarrow> batch iteration \<Rightarrow> real option
    \<Rightarrow> py_error + (real option \<times> nat \<times> ('p, 'o) world)" where
  "train L w0 dataloader max_steps =
     (let w = w0\<lparr>calls := calls w0 @ [TrainCall max_steps]\<rparr>
      in if (case max_steps of None \<Rightarrow> False | Some c \<Rightarrow> c \<le> 0) then Inr (None, 0, w)
         else
           case train_loop L max_steps 1 (yielded dataloader) (raised dataloader) 0 0 0
                  (w\<lparr>training := True\<rparr>) of
             Inl e \<Rightarrow> Inl e
           | Inr (total_loss, total_samples, steps, w') \<Rightarrow>
               (case py_div Final total_loss (real total_samples) of
                  Inl e \<Rightarrow> Inl e
                | Inr mean_loss \<Rightarrow> Inr (Some mean_loss, steps, w')))"

definition test_report ::
  "real \<Rightarrow> nat \<Rightarrow> nat \<Rightarrow> ('p, 'o) world \<Rightarrow> py_error + ('p, 'o) world" where
  "test_report total_loss total_correct total_samples w =
     (case py_div Report total_loss (real total_samples) of
        Inl e \<Rightarrow> Inl e
      | Inr mean_loss \<Rightarrow>
          (case py_div Report (real total_correct) (real total_samples) of
             Inl e \<Rightarrow> Inl e
           | Inr accuracy \<Rightarrow>
               (let progress = real total_samples / real NUM_TEST_SAMPLES
                in Inr (w\<lparr>stdout := stdout w @ [TestProgress progress mean_loss accuracy]\<rparr>))))"

fun test_loop ::
  "('p, 'o) learner \<Rightarrow> real option \<Rightarrow> nat \<Rightarrow> batch list \<Rightarrow> py_error option
    \<Rightarrow> real \<Rightarrow> nat \<Rightarrow> nat \<Rightarrow> nat \<Rightarrow> ('p, 'o) world
    \<Rightarrow> py_error + (real \<times> nat \<times> nat \<times> nat \<times> ('p, 'o) world)" where
  "test_loop L max_steps iteration [] ends total_loss total_correct total_samples steps w =
     (case ends of
        Some e \<Rightarrow> Inl e
      | None \<Rightarrow> Inr (total_loss, total_correct, total_samples, steps, w))"
| "test_loop L max_steps iteration (data # rest) ends total_loss total_correct total_samples
       steps w =
     (if past_cap iteration max_steps
      then Inr (total_loss, total_correct, total_samples, steps, w)
      else
        let outputs = model L w data;
            loss = criterion L outputs (map targets data);
            total_loss = total_loss + real (length outputs) * loss;
            total_samples = total_samples + length outputs;
            total_correct = total_correct + correct outputs (map targets data)
        in case (if iteration mod 100 = 0
                 then test_report total_loss total_correct total_samples w
                 else Inr w) of
             Inl e \<Rightarrow> Inl e
           | Inr w \<Rightarrow>
               test_loop L max_steps (Suc iteration) rest ends total_loss total_correct
                 total_samples (Suc steps) w)"

text \<open>
  \<^verbatim>\<open>test(model, dataloader, max_steps=None)\<close>, which returns the pair of the mean loss
  and the accuracy.
\<close>

definition test ::
  "('p, 'o) learner \<Rightarrow> ('p, 'o) world \<Rightarrow> batch iteration \<Rightarrow> real option
    \<Rightarrow> py_error + ((real \<times> real) option \<times> nat \<times> ('p, 'o) world)" where
  "test L w0 dataloader max_steps =
     (let w = w0\<lparr>calls := calls w0 @ [TestCall max_steps]\<rparr>
      in if (case max_steps of None \<Rightarrow> False | Some c \<Rightarrow> c \<le> 0) then Inr (None, 0, w)
         else
           case test_loop L max_steps 1 (yielded dataloader) (raised dataloader) 0 0 0 0
                  (w\<lparr>training := False\<rparr>) of
             Inl e \<Rightarrow> Inl e
           | Inr (total_loss, total_correct, total_samples, steps, w') \<Rightarrow>
               (case py_div Final total_loss (real total_samples) of
                  Inl e \<Rightarrow> Inl e
                | Inr mean_loss \<Rightarrow>
                    (case py_div Final (real total_correct) (real total_samples) of
                       Inl e \<Rightarrow> Inl e
                     | Inr accuracy \<Rightarrow> Inr (Some (mean_loss, accuracy), steps, w'))))"

subsection \<open>The epoch driver\<close>

definition whole_epochs :: "config \<Rightarrow> int" where
  "whole_epochs cfg = py_int (NUM_EPOCHS cfg)"

definition remainder_train_steps :: "config \<Rightarrow> py_error + real" where
  "remainder_train_steps cfg =
     py_div Driver ((NUM_EPOCHS cfg - real_of_int (whole_epochs cfg)) * real NUM_TRAIN_SAMPLES)
       (real (TRAIN_BATCH_SIZE cfg))"

definition max_test_steps :: "config \<Rightarrow> py_error + real option" where
  "max_test_steps cfg =
     (if FRACTION_TEST cfg \<noteq> 1
      then (case py_div Driver (FRACTION_TEST cfg * real NUM_TEST_SAMPLES)
                   (real (TEST_BATCH_SIZE cfg)) of
              Inl e \<Rightarrow> Inl e
            | Inr c \<Rightarrow> Inr (Some c))
      else Inr None)"

text \<open>
  One training pass followed by one evaluation pass and the summary line. Unpacking the
  result of \<^verbatim>\<open>test\<close> as a pair fails on \<^verbatim>\<open>None\<close>, and so does formatting a
  \<^verbatim>\<open>None\<close> training loss with \<^verbatim>\<open>:.2f\<close>.
\<close>

definition train_and_test ::
  "('p, 'o) learner \<Rightarrow> batch iteration \<Rightarrow> batch iteration \<Rightarrow> real option \<Rightarrow> real option
    \<Rightarrow> nat \<Rightarrow> ('p, 'o) world \<Rightarrow> py_error + ('p, 'o) world" where
  "train_and_test L train_dataloader test_dataloader train_steps test_steps epoch w =
     (case train L w train_dataloader train_steps of
        Inl e \<Rightarrow> Inl e
      | Inr (train_loss, _, w1) \<Rightarrow>
          (case test L w1 test_dataloader test_steps of
             Inl e \<Rightarrow> Inl e
           | Inr (None, _, w2) \<Rightarrow> Inl TypeError
           | Inr (Some (test_loss, test_accuracy), _, w2) \<Rightarrow>
               (case train_loss of
                  None \<Rightarrow> Inl TypeError
                | Some mean_loss \<Rightarrow>
                    Inr (w2\<lparr>stdout := stdout w2 @
                              [EpochSummary epoch mean_loss test_loss test_accuracy]\<rparr>))))"

text \<open>
  \<^verbatim>\<open>for epoch in range(whole_epochs)\<close>. Each pass over the training loader reshuffles,
  so the loader is given as the batches of its passes, numbered from 0.
\<close>

fun epochs_loop ::
  "('p, 'o) learner \<Rightarrow> (nat \<Rightarrow> batch iteration) \<Rightarrow> batch iteration \<Rightarrow> real option
    \<Rightarrow> nat list \<Rightarrow> ('p, 'o) world \<Rightarrow> py_error + ('p, 'o) world" where
  "epochs_loop L train_dataloader test_dataloader test_steps [] w = Inr w"
| "epochs_loop L train_dataloader test_dataloader test_steps (epoch # later) w =
     (case train_and_test L (train_dataloader epoch) test_dataloader None test_steps epoch w of
        Inl e \<Rightarrow> Inl e
      | Inr w' \<Rightarrow> epochs_loop L train_dataloader test_dataloader test_steps later w')"

definition run_epochs ::
  "config \<Rightarrow> ('p, 'o) learner \<Rightarrow> (nat \<Rightarrow> batch iteration) \<Rightarrow> batch iteration
    \<Rightarrow> ('p, 'o) world \<Rightarrow> py_error + ('p, 'o) world" where
  "run_epochs cfg L train_dataloader test_dataloader w =
     (case remainder_train_steps cfg of
        Inl e \<Rightarrow> Inl e
      | Inr remainder \<Rightarrow>
          (case max_test_steps cfg of
             Inl e \<Rightarrow> Inl e
           | Inr test_steps \<Rightarrow>
               (case epochs_loop L train_dataloader test_dataloader test_steps
                       [0..<nat (whole_epochs cfg)] w of
                  Inl e \<Rightarrow> Inl e
                | Inr w' \<Rightarrow>
                    if remainder \<noteq> 0
                    then train_and_test L (train_dataloader (nat (whole_epochs cfg)))
                           test_dataloader (Some remainder) test_steps
                           (nat (whole_epochs cfg) - 1) w'
                    else Inr w')))"

subsection \<open>Quantities used in the statements\<close>

text \<open>
  How many loop bodies a cap allows when the counter of \<^verbatim>\<open>enumerate\<close> stands at \<open>i\<close>
  and \<open>available\<close> batches are left: all of them without a cap, and with the cap \<open>c\<close>
  those whose counter does not exceed \<open>c\<close>. Both loops start the counter at 1.
\<close>

definition budget :: "real option \<Rightarrow> nat \<Rightarrow> nat \<Rightarrow> nat" where
  "budget max_steps i available =
     (case max_steps of None \<Rightarrow> available | Some c \<Rightarrow> min available (Suc (nat \<lfloor>c\<rfloor>) - i))"

definition steps_within :: "real option \<Rightarrow> nat \<Rightarrow> nat" where
  "steps_within max_steps available =
     (case max_steps of None \<Rightarrow> available | Some c \<Rightarrow> min (nat \<lfloor>c\<rfloor>) available)"







text \<open>The world after the progress line of iteration \<open>i\<close>, when the line is due.\<close>

definition reported_train :: "nat \<Rightarrow> real \<Rightarrow> nat \<Rightarrow> ('p, 'o) world \<Rightarrow> ('p, 'o) world" where
  "reported_train i total_loss total_samples w =
     (if i mod 100 = 0
      then w\<lparr>stdout := stdout w @
             [TrainProgress (real total_samples / real NUM_TRAIN_SAMPLES)
                (total_loss / real total_samples)]\<rparr>
      else w)"

definition reported_test ::
  "nat \<Rightarrow> real \<Rightarrow> nat \<Rightarrow> nat \<Rightarrow> ('p, 'o) world \<Rightarrow> ('p, 'o) world" where
  "reported_test i total_loss total_correct total_samples w =
     (if i mod 100 = 0
      then w\<lparr>stdout := stdout w @
             [TestProgress (real total_samples / real NUM_TEST_SAMPLES)
                (total_loss / real total_samples)
                (real total_correct / real total_samples)]\<rparr>
      else w)"

text \<open>The share of the total number of samples that a progress line shows.\<close>

fun progress_of :: "message \<Rightarrow> real" where
  "progress_of (TrainProgress progress mean_loss) = progress"
| "progress_of (TestProgress progress mean_loss accuracy) = progress"
| "progress_of (EpochSummary epoch train_loss test_loss test_accuracy) = 0"

text \<open>The class scores of an element of a batch under given parameters, in evaluation mode.\<close>

definition scores :: "('p, 'o) learner \<Rightarrow> 'p \<Rightarrow> sample \<Rightarrow> real list" where
  "scores L p x = forward L p False (input_ids x) (attention_mask x) (token_type_ids x)"

subsection \<open>A small concrete run\<close>

text \<open>
  A two-class model that scores an element by its first two identifiers, a loss that is
  the target itself, and an optimizer that counts its steps; two elements, one that the
  model gets wrong and one that it gets right.
\<close>

definition demo_learner :: "(int, nat) learner" where
  "demo_learner =
     \<lparr>forward = (\<lambda>p mode ids mask types. map real_of_int (take 2 ids)),
      sample_loss = (\<lambda>out t. real t),
      step = (\<lambda>opt p data. (Suc opt, p + 1))\<rparr>"

definition demo_world :: "(int, nat) world" where
  "demo_world = \<lparr>params = 0, training = False, optimizer = 0, stdout = [], calls = []\<rparr>"

definition demo_miss :: sample where
  "demo_miss = \<lparr>input_ids = [101, 7, 102, 0], attention_mask = [1, 1, 1, 0],
                 token_type_ids = [0, 0, 0, 0], targets = 1\<rparr>"

definition demo_hit :: sample where
  "demo_hit = \<lparr>input_ids = [5, 9, 102, 0], attention_mask = [1, 1, 1, 0],
                token_type_ids = [0, 0, 0, 0], targets = 1\<rparr>"

definition demo_config :: config where
  "demo_config = \<lparr>MAX_LENGTH = 4, TRAIN_BATCH_SIZE = 101694, TEST_BATCH_SIZE = 128,
                    NUM_EPOCHS = 3 / 2, FRACTION_TEST = 1\<rparr>"

text \<open>
  Loaders for the run: every pass over the training data yields one batch, and so does the
  pass over the evaluation data. With one and a half epochs and a batch size of half the
  number of training samples, the remainder pass is capped at one step.
\<close>

definition demo_train_dataloader :: "nat \<Rightarrow> batch iteration" where
  "demo_train_dataloader k = \<lparr>yielded = [[demo_miss]], raised = None\<rparr>"

definition demo_test_dataloader :: "batch iteration" where
  "demo_test_dataloader = \<lparr>yielded = [[demo_hit]], raised = None\<rparr>"




text \<open>
  A tokenizer for the records: one identifier per word between the two special
  identifiers 101 and 102, filled up with the identifier 0 when padding is asked for.
  When truncation is asked for it cuts the identifiers of the words down to what the
  maximal length leaves beside the two special ones, provided that leaves room for one
  of them at least; so it cannot honour a maximal length below 3.
\<close>

definition demo_tokenizer :: tokenizer where
  "demo_tokenizer text kw =
     (let body = replicate (Suc (length (filter (\<lambda>c. c = CHR '' '') text))) 7;
          kept = (if truncation kw \<and> 2 < max_length kw
                  then take (max_length kw - 2) body else body);
          ids = 101 # kept @ [102];
          pad = (if padding kw = ''max_length'' then max_length kw - length ids else 0)
      in \<lparr>tok_input_ids = [ids @ replicate pad 0],
          tok_attention_mask = [replicate (length ids) 1 @ replicate pad 0],
          tok_token_type_ids = [replicate (length ids + pad) 0]\<rparr>)"

text \<open>
  Records for the pipelines: one of a language of the label space and one of a language that
  the label space does not contain.
\<close>

definition demo_classes :: "(string, nat) dict" where
  "demo_classes = [(''a'', 0), (''b'', 1)]"

definition demo_known :: row where
  "demo_known = \<lparr>translation = ''hello'', language = ''a''\<rparr>"

definition demo_unknown :: row where
  "demo_unknown = \<lparr>translation = ''hallo'', language = ''zz''\<rparr>"

section \<open>Verification\<close>

subsection \<open>Facts about dictionaries built by comprehension\<close>

lemma update_fresh: "k \<notin> fst ` set al \<Longrightarrow> AList.update k v al = al @ [(k, v)]"
  by (induction al) auto

lemma fold_update_fresh:
  assumes "distinct (map fst kvs)" and "fst ` set kvs \<inter> fst ` set acc = {}"
  shows "fold (\<lambda>(k, v) d. AList.update k v d) kvs acc = acc @ kvs"
  using assms
proof (induction kvs arbitrary: acc)
  case Nil
  then show ?case by simp
next
  case (Cons kv kvs)
  obtain k v where kv: "kv = (k, v)" by (cases kv)
  from Cons.prems kv have fresh: "k \<notin> fst ` set acc" by auto
  have step: "AList.update k v acc = acc @ [(k, v)]"
    by (rule update_fresh [OF fresh])
  from Cons.prems kv have d: "distinct (map fst kvs)" by simp
  from Cons.prems kv have disj: "fst ` set kvs \<inter> fst ` set (acc @ [(k, v)]) = {}"
    by (auto simp: image_iff)
  show ?case
    using Cons.IH [OF d disj] by (simp add: kv step)
qed

lemma swap_enumerate:
  "map (\<lambda>(i, y). (y, i)) (enumerate n ys) = zip ys [n..<n + length ys]"
  by (induction ys arbitrary: n) (simp_all add: upt_rec)

lemma fold_swap:
  "fold (\<lambda>(i, y) d. AList.update y i d) ps acc =
   fold (\<lambda>(k, v) d. AList.update k v d) (map (\<lambda>(i, y). (y, i)) ps) acc"
  by (induction ps arbitrary: acc) (auto split: prod.splits)

lemma classes_to_int_zip:
  "classes_to_int rows =
     zip (sorted_list_of_set (set (map language rows)))
       [0..<card (set (map language rows))]"
proof -
  let ?ys = "sorted_list_of_set (set (map language rows))"
  have len: "length ?ys = card (set (map language rows))" by simp
  have d: "distinct (map fst (zip ?ys [0..<0 + length ?ys]))" by simp
  have "classes_to_int rows =
      fold (\<lambda>(k, v) d. AList.update k v d) (zip ?ys [0..<0 + length ?ys]) []"
    unfolding classes_to_int_def fold_swap swap_enumerate ..
  also have "\<dots> = [] @ zip ?ys [0..<0 + length ?ys]"
    by (rule fold_update_fresh [OF d]) simp
  finally show ?thesis using len by simp
qed

lemma map_of_zip_upt:
  assumes "distinct ys" "i < length ys"
  shows "map_of (zip ys [0..<length ys]) (ys ! i) = Some i"
  using map_of_zip_nth [of ys "[0..<length ys]" i] assms by simp

lemma map_of_zip_upt_iff:
  assumes "distinct ys"
  shows "map_of (zip ys [0..<length ys]) y = Some i \<longleftrightarrow> i < length ys \<and> ys ! i = y"
proof
  assume h: "map_of (zip ys [0..<length ys]) y = Some i"
  then have "(y, i) \<in> set (zip ys [0..<length ys])" by (rule map_of_SomeD)
  then obtain j where j: "j < length ys" "ys ! j = y" "[0..<length ys] ! j = i"
    by (auto simp: in_set_zip)
  then show "i < length ys \<and> ys ! i = y" by simp
next
  assume "i < length ys \<and> ys ! i = y"
  then show "map_of (zip ys [0..<length ys]) y = Some i"
    using map_of_zip_upt [OF assms, of i] by auto
qed

lemma int_to_classes_zip:
  assumes "distinct ys"
  shows "int_to_classes (zip ys [0..<length ys]) = zip [0..<length ys] ys"
proof -
  let ?d = "zip ys [0..<length ys]"
  have sw: "map (\<lambda>(y, i). (i, y)) ?d = zip [0..<length ys] ys"
    by (simp add: zip_commute [of "[0..<length ys]" ys] prod.swap_def case_prod_unfold del: upt.simps)
  have f: "fold (\<lambda>(y, i) d. AList.update i y d) ps acc =
      fold (\<lambda>(k, v) d. AList.update k v d) (map (\<lambda>(y, i). (i, y)) ps) acc" for ps :: "('a \<times> nat) list" and acc
    by (induction ps arbitrary: acc) (auto split: prod.splits)
  have d: "distinct (map fst (zip [0..<length ys] ys))" by simp
  have "int_to_classes ?d = fold (\<lambda>(k, v) d. AList.update k v d) (zip [0..<length ys] ys) []"
    unfolding int_to_classes_def f sw ..
  also have "\<dots> = [] @ zip [0..<length ys] ys"
    by (rule fold_update_fresh [OF d]) simp
  finally show ?thesis by simp
qed

lemma map_of_upt_zip_iff:
  "map_of (zip [0..<length ys] ys) i = Some y \<longleftrightarrow> i < length ys \<and> ys ! i = y"
proof
  assume "map_of (zip [0..<length ys] ys) i = Some y"
  then have "(i, y) \<in> set (zip [0..<length ys] ys)" by (rule map_of_SomeD)
  then show "i < length ys \<and> ys ! i = y" by (auto simp: in_set_zip)
next
  assume h: "i < length ys \<and> ys ! i = y"
  then show "map_of (zip [0..<length ys] ys) i = Some y"
    using map_of_zip_nth [of "[0..<length ys]" ys i] by simp
qed

subsection \<open>The label space is a sorted bijection\<close>

lemma abc_example:
  "fold (\<lambda>(i, y) d. AList.update y i d)
       (enumerate 0 (sorted_list_of_set (set [''a'', ''b'', ''a'']))) [] = [(''a'', 0::nat), (''b'', 1)]"
  by code_simp

lemma set_as_nth_image: "set zs = (\<lambda>i. zs ! i) ` {0..<length zs}"
  by (auto simp: in_set_conv_nth)

lemma sorted_list_nth_ex:
  assumes "finite A" "a \<in> A"
  shows "\<exists>i<length (sorted_list_of_set A). sorted_list_of_set A ! i = a"
proof -
  from assms have "a \<in> set (sorted_list_of_set A)" by simp
  then show ?thesis unfolding in_set_conv_nth by blast
qed

text \<open>
  Claim C2. For every sequence of training records, \<open>classes_to_int\<close> has exactly the
  distinct language labels as keys, maps them one-to-one onto \<open>0..n-1\<close> where \<open>n\<close> is
  the number of distinct labels, and assigns the numbers in sorted label order. The
  dictionary \<open>int_to_classes\<close> is its exact inverse. The mapping depends on the set of
  labels only, so the same training data yield the same mapping. For the labels
  \<open>a, b, a\<close> the mapping is \<open>{a: 0, b: 1}\<close>.
\<close>

theorem classes_to_int_sorted_bijection:
  "fst ` set (classes_to_int rows) = set (map language rows)
   \<and> distinct (map fst (classes_to_int rows))
   \<and> bij_betw (\<lambda>y. the (map_of (classes_to_int rows) y))
        (set (map language rows)) {0..<card (set (map language rows))}
   \<and> (\<forall>a \<in> set (map language rows). \<forall>b \<in> set (map language rows).
        a < b \<longrightarrow> the (map_of (classes_to_int rows) a) < the (map_of (classes_to_int rows) b))
   \<and> (\<forall>y i. map_of (int_to_classes (classes_to_int rows)) i = Some y
        \<longleftrightarrow> map_of (classes_to_int rows) y = Some i)
   \<and> (\<forall>again. set (map language again) = set (map language rows)
        \<longrightarrow> classes_to_int again = classes_to_int rows)
   \<and> (map language rows = [''a'', ''b'', ''a'']
        \<longrightarrow> classes_to_int rows = [(''a'', 0), (''b'', 1)]
          \<and> int_to_classes (classes_to_int rows) = [(0, ''a''), (1, ''b'')])"
proof -
  let ?L = "set (map language rows)"
  let ?ys = "sorted_list_of_set ?L"
  let ?d = "classes_to_int rows"
  let ?idx = "\<lambda>y. the (map_of ?d y)"
  have len: "length ?ys = card ?L" by simp
  have dz: "?d = zip ?ys [0..<length ?ys]" by (simp add: classes_to_int_zip)
  have lookup: "map_of ?d y = Some i \<longleftrightarrow> i < length ?ys \<and> ?ys ! i = y" for y i
    unfolding dz by (rule map_of_zip_upt_iff) simp
  have keys: "fst ` set ?d = ?L"
  proof -
    have "map fst ?d = ?ys" unfolding dz by simp
    then have "set (map fst ?d) = set ?ys" by simp
    then show ?thesis by simp
  qed
  have dist: "distinct (map fst ?d)"
  proof -
    have "map fst ?d = ?ys" unfolding dz by simp
    then show ?thesis by simp
  qed
  have idx_nth: "?idx (?ys ! i) = i" if "i < length ?ys" for i
    using lookup [of "?ys ! i" i] that by simp
  have L_nth: "?L = (\<lambda>i. ?ys ! i) ` {0..<length ?ys}"
  proof -
    have "set ?ys = ?L" by simp
    then show ?thesis using set_as_nth_image [of ?ys] by simp
  qed
  have L_ex: "\<exists>i<length ?ys. ?ys ! i = a" if "a \<in> ?L" for a
    by (rule sorted_list_nth_ex [OF _ that]) simp
  have bij: "bij_betw ?idx ?L {0..<card ?L}"
  proof (rule bij_betw_byWitness [where f' = "\<lambda>i. ?ys ! i"])
    show "\<forall>a\<in>?L. ?ys ! ?idx a = a"
    proof
      fix a assume "a \<in> ?L"
      then obtain i where "i < length ?ys" "?ys ! i = a"
        using L_ex by blast
      then show "?ys ! ?idx a = a" using idx_nth by auto
    qed
    show "\<forall>i\<in>{0..<card ?L}. ?idx (?ys ! i) = i"
      using idx_nth len by auto
    show "?idx ` ?L \<subseteq> {0..<card ?L}"
    proof
      fix k assume "k \<in> ?idx ` ?L"
      then obtain a where a: "a \<in> ?L" "k = ?idx a" by blast
      then obtain i where "i < length ?ys" "k = ?idx (?ys ! i)"
        using L_ex [OF a(1)] by blast
      then show "k \<in> {0..<card ?L}" using idx_nth len by auto
    qed
    show "(\<lambda>i. ?ys ! i) ` {0..<card ?L} \<subseteq> ?L"
      unfolding len [symmetric] using L_nth by blast
  qed
  have mono: "\<forall>a\<in>?L. \<forall>b\<in>?L. a < b \<longrightarrow> ?idx a < ?idx b"
  proof (intro ballI impI)
    fix a b assume "a \<in> ?L" "b \<in> ?L" and ab: "a < b"
    then obtain i j where i: "i < length ?ys" "?ys ! i = a" and j: "j < length ?ys" "?ys ! j = b"
      using L_ex by blast
    have "i < j"
    proof (rule ccontr)
      assume "\<not> i < j"
      then have "j \<le> i" by simp
      then have "?ys ! j \<le> ?ys ! i"
        using i(1) by (intro sorted_nth_mono) simp_all
      with i j ab show False by simp
    qed
    with i j idx_nth show "?idx a < ?idx b" by auto
  qed
  have inv: "\<forall>y i. map_of (int_to_classes ?d) i = Some y \<longleftrightarrow> map_of ?d y = Some i"
  proof (intro allI)
    fix y i
    have "int_to_classes ?d = zip [0..<length ?ys] ?ys"
      unfolding dz by (rule int_to_classes_zip) simp
    then have "map_of (int_to_classes ?d) i = Some y \<longleftrightarrow> i < length ?ys \<and> ?ys ! i = y"
      by (simp only: map_of_upt_zip_iff)
    then show "map_of (int_to_classes ?d) i = Some y \<longleftrightarrow> map_of ?d y = Some i"
      using lookup by simp
  qed
  have det: "\<forall>again. set (map language again) = ?L \<longrightarrow> classes_to_int again = ?d"
    by (simp add: classes_to_int_def)
  have ex: "map language rows = [''a'', ''b'', ''a'']
      \<longrightarrow> ?d = [(''a'', 0), (''b'', 1)] \<and> int_to_classes ?d = [(0, ''a''), (1, ''b'')]"
  proof
    assume h: "map language rows = [''a'', ''b'', ''a'']"
    have d: "?d = [(''a'', 0), (''b'', 1)]"
      unfolding classes_to_int_def h by (rule abc_example)
    have "int_to_classes [(''a'', 0::nat), (''b'', 1)] = [(0, ''a''), (1, ''b'')]"
      by (simp add: int_to_classes_def)
    with d show "?d = [(''a'', 0), (''b'', 1)] \<and> int_to_classes ?d = [(0, ''a''), (1, ''b'')]"
      by simp
  qed
  from keys dist bij mono inv det ex show ?thesis by blast
qed

text \<open>The theorem at three concrete records with the labels \<open>a, b, a\<close>.\<close>

theorem classes_to_int_sorted_bijection_witness:
  "classes_to_int
     [\<lparr>translation = ''x'', language = ''a''\<rparr>,
      \<lparr>translation = ''y'', language = ''b''\<rparr>,
      \<lparr>translation = ''z'', language = ''a''\<rparr>] = [(''a'', 0), (''b'', 1)]
   \<and> int_to_classes (classes_to_int
     [\<lparr>translation = ''x'', language = ''a''\<rparr>,
      \<lparr>translation = ''y'', language = ''b''\<rparr>,
      \<lparr>translation = ''z'', language = ''a''\<rparr>]) = [(0, ''a''), (1, ''b'')]"
  using classes_to_int_sorted_bijection
    [of "[\<lparr>translation = ''x'', language = ''a''\<rparr>,
      \<lparr>translation = ''y'', language = ''b''\<rparr>,
      \<lparr>translation = ''z'', language = ''a''\<rparr>]"]
  by (simp add: int_to_classes_def)

subsection \<open>The per-record map function\<close>











subsection \<open>The order of the pipeline stages\<close>

lemma map_items_raised_None:
  "raised (map_items f xs) = None \<Longrightarrow> (map_items f xs)\<lparr>raised := None\<rparr> = map_items f xs"
  by simp

lemma iterate_map_dp_as_datapipe:
  assumes "raised (iterate dp ctx) = None"
  shows "iterate (map_dp f dp) ctx = map_items f (yielded (iterate dp ctx))"
  using assms by (simp add: map_dp_def Let_def split: option.splits)

text \<open>
  Claim C3. The training pipeline wraps the adapter's pipe in a shuffle stage, then a
  shard-filter stage, then the per-record map stage, in this order; the evaluation pipeline
  wraps it in a shard-filter stage, then the map stage, and has no shuffle stage. A pass
  over either pipeline applies the stages in that order to the adapter's sequence.
\<close>

theorem pipeline_stage_order:
  "graph (get_train_dataset train_data_pipe unpack)
     = graph train_data_pipe @ [Shuffler 10000, ShardingFilter, Mapper]
   \<and> graph (get_test_dataset test_data_pipe unpack)
     = graph test_data_pipe @ [ShardingFilter, Mapper]
   \<and> graph (get_train_dataset (as_datapipe rows) unpack) = [Shuffler 10000, ShardingFilter, Mapper]
   \<and> graph (get_test_dataset (as_datapipe rows) unpack) = [ShardingFilter, Mapper]
   \<and> iterate (get_train_dataset (as_datapipe rows) unpack) ctx
     = map_items unpack
         (shard_items (num_of_instances ctx) (instance_id ctx)
           (shuffle_items 10000 (picks ctx) rows))
   \<and> iterate (get_test_dataset (as_datapipe rows) unpack) ctx
     = map_items unpack (shard_items (num_of_instances ctx) (instance_id ctx) rows)"
proof -
  have g1: "graph (get_train_dataset train_data_pipe unpack)
      = graph train_data_pipe @ [Shuffler 10000, ShardingFilter, Mapper]"
    by (simp add: get_train_dataset_def map_dp_def sharding_filter_def shuffle_def)
  have g2: "graph (get_test_dataset test_data_pipe unpack)
      = graph test_data_pipe @ [ShardingFilter, Mapper]"
    by (simp add: get_test_dataset_def map_dp_def sharding_filter_def)
  have g3: "graph (get_train_dataset (as_datapipe rows) unpack)
      = [Shuffler 10000, ShardingFilter, Mapper]"
    by (simp add: get_train_dataset_def map_dp_def sharding_filter_def shuffle_def
        as_datapipe_def)
  have g4: "graph (get_test_dataset (as_datapipe rows) unpack) = [ShardingFilter, Mapper]"
    by (simp add: get_test_dataset_def map_dp_def sharding_filter_def as_datapipe_def)
  have r1: "raised (iterate (sharding_filter (shuffle 10000 (as_datapipe rows))) ctx) = None"
    by (simp add: sharding_filter_def shuffle_def as_datapipe_def)
  have y1: "yielded (iterate (sharding_filter (shuffle 10000 (as_datapipe rows))) ctx)
      = shard_items (num_of_instances ctx) (instance_id ctx)
          (shuffle_items 10000 (picks ctx) rows)"
    by (simp add: sharding_filter_def shuffle_def as_datapipe_def)
  have i1: "iterate (get_train_dataset (as_datapipe rows) unpack) ctx
      = map_items unpack
          (shard_items (num_of_instances ctx) (instance_id ctx)
            (shuffle_items 10000 (picks ctx) rows))"
    unfolding get_train_dataset_def Let_def iterate_map_dp_as_datapipe [OF r1] y1 ..
  have r2: "raised (iterate (sharding_filter (as_datapipe rows)) ctx) = None"
    by (simp add: sharding_filter_def as_datapipe_def)
  have y2: "yielded (iterate (sharding_filter (as_datapipe rows)) ctx)
      = shard_items (num_of_instances ctx) (instance_id ctx) rows"
    by (simp add: sharding_filter_def as_datapipe_def)
  have i2: "iterate (get_test_dataset (as_datapipe rows) unpack) ctx
      = map_items unpack (shard_items (num_of_instances ctx) (instance_id ctx) rows)"
    unfolding get_test_dataset_def Let_def iterate_map_dp_as_datapipe [OF r2] y2 ..
  from g1 g2 g3 g4 i1 i2 show ?thesis by blast
qed

subsection \<open>The shard filter partitions the sequence\<close>

lemma sum_filter_mset_less:
  "(\<Sum>k<(n::nat). filter_mset (\<lambda>e. g e = k) M) = filter_mset (\<lambda>e. g e < n) M"
  by (induction n) (auto simp: multiset_eq_iff less_Suc_eq)

lemma sum_image_mset:
  "(\<Sum>k<(n::nat). image_mset f (A k)) = image_mset f (\<Sum>k<n. A k)"
  by (induction n) simp_all

lemma mset_shard_items:
  "mset (shard_items n k xs)
     = image_mset snd (filter_mset (\<lambda>e. fst e mod n = k) (mset (enumerate 0 xs)))"
  by (simp add: shard_items_def case_prod_unfold)

lemma shard_items_union:
  assumes "0 < n"
  shows "(\<Sum>k<n. mset (shard_items n k xs)) = mset xs"
proof -
  have "(\<Sum>k<n. mset (shard_items n k xs))
      = image_mset snd (\<Sum>k<n. filter_mset (\<lambda>e. fst e mod n = k) (mset (enumerate 0 xs)))"
    by (simp only: mset_shard_items sum_image_mset)
  also have "\<dots> = image_mset snd (filter_mset (\<lambda>e. fst e mod n < n) (mset (enumerate 0 xs)))"
    by (simp only: sum_filter_mset_less)
  also have "\<dots> = image_mset snd (mset (enumerate 0 xs))"
    using assms by simp
  also have "\<dots> = mset (map snd (enumerate 0 xs))" by (simp only: mset_map)
  also have "\<dots> = mset xs" by (simp only: map_snd_enumerate)
  finally show ?thesis .
qed

lemma shard_items_single: "shard_items (Suc 0) 0 xs = xs"
  by (simp add: shard_items_def)

lemma shard_items_tagged:
  "e \<in> set (shard_items n k es) \<longleftrightarrow> (\<exists>i < length es. i mod n = k \<and> es ! i = e)"
proof -
  have "e \<in> set (shard_items n k es)
      \<longleftrightarrow> (\<exists>p \<in> set (enumerate 0 es). fst p mod n = k \<and> snd p = e)"
    by (auto simp: shard_items_def case_prod_unfold)
  also have "\<dots> \<longleftrightarrow> (\<exists>i < length es. i mod n = k \<and> es ! i = e)"
    by (auto simp: in_set_enumerate_eq Bex_def)
  finally show ?thesis .
qed

lemma routed_to_exactly_one:
  assumes "0 < n" and "e \<in> set (enumerate 0 xs)"
  shows "\<exists>!k. k < n \<and> e \<in> set (shard_items n k (enumerate 0 xs))"
proof -
  let ?es = "enumerate 0 xs"
  from assms(2) obtain i where i: "i < length ?es" "?es ! i = e"
    by (auto simp: in_set_conv_nth)
  have pos: "j = i" if "j < length ?es" "?es ! j = e" for j
    using that i by (simp add: nth_enumerate_eq) (metis fst_conv i(2))
  show ?thesis
  proof (rule ex1I [where a = "i mod n"])
    show "i mod n < n \<and> e \<in> set (shard_items n (i mod n) ?es)"
      using assms(1) i by (auto simp: shard_items_tagged)
  next
    fix k assume "k < n \<and> e \<in> set (shard_items n k ?es)"
    then obtain j where "j < length ?es" "j mod n = k" "?es ! j = e"
      by (auto simp: shard_items_tagged)
    with pos show "k = i mod n" by blast
  qed
qed

text \<open>
  Claim C4. For every input sequence and every number of workers \<open>N\<close>, the shard filter
  routes each element (an item at its position) to exactly one of the consumers, the
  multiset union of the consumers' outputs is the multiset of the input, and with zero or
  one worker the filter passes the sequence through unchanged. With zero workers the one
  consumer is the loading process.
\<close>

theorem sharding_filter_partition:
  "(\<forall>e \<in> set (enumerate 0 xs).
      \<exists>!k. k < consumers N
        \<and> e \<in> set (yielded (iterate (sharding_filter (as_datapipe (enumerate 0 xs)))
                               (worker_ctx ps N k))))
   \<and> (\<Sum>k<consumers N.
        mset (yielded (iterate (sharding_filter (as_datapipe xs)) (worker_ctx ps N k))))
     = mset xs
   \<and> (N \<le> 1 \<longrightarrow>
        consumers N = 1
        \<and> iterate (sharding_filter (as_datapipe xs)) (worker_ctx ps N 0)
          = iterate (as_datapipe xs) (worker_ctx ps N 0))"
proof -
  have it: "yielded (iterate (sharding_filter (as_datapipe ys)) (worker_ctx ps N k))
      = shard_items (consumers N) k ys" for ys :: "'b list" and k
    by (simp add: sharding_filter_def as_datapipe_def worker_ctx_def)
  have pos: "0 < consumers N" by (simp add: consumers_def)
  have one: "\<forall>e \<in> set (enumerate 0 xs).
      \<exists>!k. k < consumers N
        \<and> e \<in> set (yielded (iterate (sharding_filter (as_datapipe (enumerate 0 xs)))
                               (worker_ctx ps N k)))"
    unfolding it using routed_to_exactly_one [OF pos] by blast
  have union: "(\<Sum>k<consumers N.
        mset (yielded (iterate (sharding_filter (as_datapipe xs)) (worker_ctx ps N k))))
     = mset xs"
    unfolding it by (rule shard_items_union [OF pos])
  have pass: "N \<le> 1 \<longrightarrow>
        consumers N = 1
        \<and> iterate (sharding_filter (as_datapipe xs)) (worker_ctx ps N 0)
          = iterate (as_datapipe xs) (worker_ctx ps N 0)"
  proof
    assume "N \<le> 1"
    then have c: "consumers N = Suc 0" by (simp add: consumers_def)
    show "consumers N = 1
        \<and> iterate (sharding_filter (as_datapipe xs)) (worker_ctx ps N 0)
          = iterate (as_datapipe xs) (worker_ctx ps N 0)"
      by (simp add: sharding_filter_def as_datapipe_def worker_ctx_def c shard_items_single)
  qed
  from one union pass show ?thesis by blast
qed

text \<open>
  The theorem at five items and three workers, and at the notebook's own setting of no
  workers.
\<close>

theorem sharding_filter_partition_witness:
  "(\<exists>!k. k < consumers 3
      \<and> (3, CHR ''d'') \<in> set (yielded (iterate
            (sharding_filter (as_datapipe (enumerate 0 ''abcde''))) (worker_ctx [] 3 k))))
   \<and> (3, CHR ''d'') \<in> set (yielded (iterate
            (sharding_filter (as_datapipe (enumerate 0 ''abcde''))) (worker_ctx [] 3 0)))
   \<and> yielded (iterate (sharding_filter (as_datapipe ''abcde'')) (worker_ctx [] 3 0)) = ''ad''
   \<and> yielded (iterate (sharding_filter (as_datapipe ''abcde'')) (worker_ctx [] 3 1)) = ''be''
   \<and> yielded (iterate (sharding_filter (as_datapipe ''abcde'')) (worker_ctx [] 3 2)) = ''c''
   \<and> NUM_TRAIN_WORKERS \<le> 1
   \<and> yielded (iterate (sharding_filter (as_datapipe ''abcde''))
               (worker_ctx [] NUM_TRAIN_WORKERS 0)) = ''abcde''"
proof -
  have e: "(3, CHR ''d'') \<in> set (enumerate 0 ''abcde'')" by simp
  have w: "NUM_TRAIN_WORKERS \<le> 1" by (simp add: NUM_TRAIN_WORKERS_def)
  have ev: "yielded (iterate (sharding_filter (as_datapipe ''abcde'')) (worker_ctx [] 3 0)) = ''ad''"
    "yielded (iterate (sharding_filter (as_datapipe ''abcde'')) (worker_ctx [] 3 1)) = ''be''"
    "yielded (iterate (sharding_filter (as_datapipe ''abcde'')) (worker_ctx [] 3 2)) = ''c''"
    "(3, CHR ''d'') \<in> set (yielded (iterate
            (sharding_filter (as_datapipe (enumerate 0 ''abcde''))) (worker_ctx [] 3 0)))"
    by (simp_all add: sharding_filter_def as_datapipe_def worker_ctx_def consumers_def
        shard_items_def)
  from sharding_filter_partition [of "''abcde''" 3 "[]"]
  have "\<forall>e \<in> set (enumerate 0 ''abcde'').
      \<exists>!k. k < consumers 3
        \<and> e \<in> set (yielded (iterate (sharding_filter (as_datapipe (enumerate 0 ''abcde'')))
                               (worker_ctx [] 3 k)))"
    by blast
  from bspec [OF this e]
  have uniq: "\<exists>!k. k < consumers 3
      \<and> (3, CHR ''d'') \<in> set (yielded (iterate
            (sharding_filter (as_datapipe (enumerate 0 ''abcde''))) (worker_ctx [] 3 k)))" .
  from sharding_filter_partition [of "''abcde''" NUM_TRAIN_WORKERS "[]"] w
  have "iterate (sharding_filter (as_datapipe ''abcde'')) (worker_ctx [] NUM_TRAIN_WORKERS 0)
      = iterate (as_datapipe ''abcde'') (worker_ctx [] NUM_TRAIN_WORKERS 0)"
    by blast
  then have pass: "yielded (iterate (sharding_filter (as_datapipe ''abcde''))
               (worker_ctx [] NUM_TRAIN_WORKERS 0)) = ''abcde''"
    by (simp add: as_datapipe_def)
  from uniq ev w pass show ?thesis by blast
qed

subsection \<open>One step of the loops\<close>

lemma past_cap_floor:
  assumes "0 < i"
  shows "past_cap i (Some c) \<longleftrightarrow> nat \<lfloor>c\<rfloor> < i"
proof -
  have "real i > c \<longleftrightarrow> \<lfloor>c\<rfloor> < int i"
    by (simp add: floor_less_iff)
  also have "\<dots> \<longleftrightarrow> nat \<lfloor>c\<rfloor> < i"
    using assms by linarith
  finally show ?thesis by (simp add: past_cap_def)
qed

lemma budget_past_cap:
  assumes "0 < i" and "past_cap i cap"
  shows "budget cap i available = 0"
proof (cases cap)
  case None
  with assms(2) show ?thesis by (simp add: past_cap_def)
next
  case (Some c)
  with assms have "nat \<lfloor>c\<rfloor> < i" by (simp add: past_cap_floor)
  with Some show ?thesis by (simp add: budget_def)
qed

lemma budget_within_cap:
  assumes "0 < i" and "\<not> past_cap i cap"
  shows "budget cap i (Suc available) = Suc (budget cap (Suc i) available)"
proof (cases cap)
  case None
  then show ?thesis by (simp add: budget_def)
next
  case (Some c)
  with assms have "i \<le> nat \<lfloor>c\<rfloor>" by (simp add: past_cap_floor)
  with Some show ?thesis by (simp add: budget_def Suc_diff_le)
qed

lemma budget_le: "budget cap i available \<le> available"
  by (simp add: budget_def split: option.splits)

lemma budget_start: "budget cap 1 available = steps_within cap available"
  by (simp add: budget_def steps_within_def min.commute split: option.splits)

lemma length_model: "length (model L w data) = length data"
  by (simp add: model_def)

lemma model_cong:
  assumes "params w' = params w" and "training w' = training w"
  shows "model L w' = model L w"
  using assms by (simp add: model_def fun_eq_iff)

lemma train_report_ok:
  assumes "0 < n"
  shows "train_report lo n w =
     Inr (w\<lparr>stdout := stdout w @
            [TrainProgress (real n / real NUM_TRAIN_SAMPLES) (lo / real n)]\<rparr>)"
  using assms by (simp add: train_report_def py_div_def)

lemma test_report_ok:
  assumes "0 < n"
  shows "test_report lo c n w =
     Inr (w\<lparr>stdout := stdout w @
            [TestProgress (real n / real NUM_TEST_SAMPLES) (lo / real n) (real c / real n)]\<rparr>)"
  using assms by (simp add: test_report_def py_div_def)

lemma train_loop_break:
  assumes "past_cap i cap"
  shows "train_loop L cap i (data # rest) ends lo n k w = Inr (lo, n, k, w)"
  using assms by simp

lemma train_loop_step:
  assumes "\<not> past_cap i cap" and "data \<noteq> []"
  shows "train_loop L cap i (data # rest) ends lo n k w =
     train_loop L cap (Suc i) rest ends
       (lo + real (length data) * criterion L (model L w data) (map targets data))
       (n + length data) (Suc k)
       (optimizer_step L data
         (reported_train i
           (lo + real (length data) * criterion L (model L w data) (map targets data))
           (n + length data) w))"
proof -
  from assms(2) have pos: "0 < n + length data" by simp
  show ?thesis
    using assms(1)
    by (simp add: Let_def train_report_ok [OF pos] reported_train_def length_model)
qed

lemma test_loop_break:
  assumes "past_cap i cap"
  shows "test_loop L cap i (data # rest) ends lo c n k w = Inr (lo, c, n, k, w)"
  using assms by simp

lemma test_loop_step:
  assumes "\<not> past_cap i cap" and "data \<noteq> []"
  shows "test_loop L cap i (data # rest) ends lo c n k w =
     test_loop L cap (Suc i) rest ends
       (lo + real (length data) * criterion L (model L w data) (map targets data))
       (c + correct (model L w data) (map targets data))
       (n + length data) (Suc k)
       (reported_test i
         (lo + real (length data) * criterion L (model L w data) (map targets data))
         (c + correct (model L w data) (map targets data))
         (n + length data) w)"
proof -
  from assms(2) have pos: "0 < n + length data" by simp
  show ?thesis
    using assms(1)
    by (simp add: Let_def test_report_ok [OF pos] reported_test_def length_model)
qed

lemma reported_train_frame:
  "params (reported_train i lo n w) = params w"
  "training (reported_train i lo n w) = training w"
  "optimizer (reported_train i lo n w) = optimizer w"
  "calls (reported_train i lo n w) = calls w"
  by (simp_all add: reported_train_def)

lemma reported_test_frame:
  "params (reported_test i lo c n w) = params w"
  "training (reported_test i lo c n w) = training w"
  "optimizer (reported_test i lo c n w) = optimizer w"
  "calls (reported_test i lo c n w) = calls w"
  by (simp_all add: reported_test_def)

lemma optimizer_step_frame:
  "training (optimizer_step L data w) = training w"
  "stdout (optimizer_step L data w) = stdout w"
  "calls (optimizer_step L data w) = calls w"
  by (simp_all add: optimizer_step_def Let_def split: prod.splits)

subsection \<open>How the loops end\<close>

lemma train_loop_returns:
  assumes "\<forall>b \<in> set bs. b \<noteq> []" and "0 < i"
    and "ends = None \<or> budget cap i (length bs) < length bs"
  shows "\<exists>lo' w'. train_loop L cap i bs ends lo n k w =
      Inr (lo', n + length (concat (take (budget cap i (length bs)) bs)),
           k + budget cap i (length bs), w')
      \<and> calls w' = calls w \<and> training w' = training w"
  using assms
proof (induction bs arbitrary: i lo n k w)
  case Nil
  then show ?case by (simp add: budget_def split: option.splits)
next
  case (Cons b bs)
  show ?case
  proof (cases "past_cap i cap")
    case True
    then show ?thesis
      using Cons.prems(2) by (simp add: budget_past_cap del: train_loop.simps)
         (simp add: train_loop_break)
  next
    case False
    from Cons.prems(1) have b: "b \<noteq> []" and bs: "\<forall>b \<in> set bs. b \<noteq> []" by simp_all
    have bud: "budget cap i (length (b # bs)) = Suc (budget cap (Suc i) (length bs))"
      using budget_within_cap [OF Cons.prems(2) False] by simp
    from Cons.prems(3) bud have ends': "ends = None \<or> budget cap (Suc i) (length bs) < length bs"
      by auto
    let ?lo = "lo + real (length b) * criterion L (model L w b) (map targets b)"
    let ?w = "optimizer_step L b (reported_train i ?lo (n + length b) w)"
    from Cons.IH [OF bs _ ends', of ?lo "n + length b" "Suc k" ?w]
    obtain lo' w' where
      run: "train_loop L cap (Suc i) bs ends ?lo (n + length b) (Suc k) ?w =
          Inr (lo', n + length b + length (concat (take (budget cap (Suc i) (length bs)) bs)),
               Suc k + budget cap (Suc i) (length bs), w')"
      and fr: "calls w' = calls ?w" "training w' = training ?w"
      by auto
    show ?thesis
      unfolding train_loop_step [OF False b] bud
      using run fr by (simp add: optimizer_step_frame reported_train_frame)
  qed
qed

lemma train_loop_raises:
  assumes "\<forall>b \<in> set bs. b \<noteq> []" and "0 < i"
    and "budget cap i (length bs) = length bs"
  shows "train_loop L cap i bs (Some e) lo n k w = Inl e"
  using assms
proof (induction bs arbitrary: i lo n k w)
  case Nil
  then show ?case by simp
next
  case (Cons b bs)
  have np: "\<not> past_cap i cap"
  proof
    assume "past_cap i cap"
    from budget_past_cap [OF Cons.prems(2) this] Cons.prems(3) show False by simp
  qed
  from Cons.prems(1) have b: "b \<noteq> []" and bs: "\<forall>b \<in> set bs. b \<noteq> []" by simp_all
  have "budget cap i (length (b # bs)) = Suc (budget cap (Suc i) (length bs))"
    using budget_within_cap [OF Cons.prems(2) np] by simp
  with Cons.prems(3) have full: "budget cap (Suc i) (length bs) = length bs" by simp
  show ?case
    unfolding train_loop_step [OF np b]
    by (rule Cons.IH [OF bs _ full]) simp
qed

lemma train_loop_error:
  assumes "\<forall>b \<in> set bs. b \<noteq> []" and "train_loop L cap i bs ends lo n k w = Inl e"
  shows "ends = Some e"
  using assms
proof (induction bs arbitrary: i lo n k w)
  case Nil
  then show ?case by (simp split: option.splits)
next
  case (Cons b bs)
  from Cons.prems(1) have b: "b \<noteq> []" and bs: "\<forall>b \<in> set bs. b \<noteq> []" by simp_all
  show ?case
  proof (cases "past_cap i cap")
    case True
    with Cons.prems(2) show ?thesis by (simp add: train_loop_break del: train_loop.simps)
  next
    case False
    from Cons.prems(2) show ?thesis
      unfolding train_loop_step [OF False b] by (rule Cons.IH [OF bs])
  qed
qed


lemma samples_pos:
  assumes "b \<noteq> []"
  shows "0 < real n + real (length b)"
proof -
  from assms have "0 < real (length b)" by simp
  moreover have "0 \<le> real n" by simp
  ultimately show ?thesis by linarith
qed

lemma reported_train_line:
  assumes "b \<noteq> []"
  shows "\<exists>line. stdout (reported_train i lo (n + length b) w) = stdout w @ line
      \<and> length line = (if i mod 100 = 0 then 1 else 0)
      \<and> (\<forall>m \<in> set line. 0 < progress_of m)"
proof (cases "i mod 100 = 0")
  case True
  let ?msg = "TrainProgress (real (n + length b) / real NUM_TRAIN_SAMPLES)
      (lo / real (n + length b))"
  have 1: "stdout (reported_train i lo (n + length b) w) = stdout w @ [?msg]"
    using True by (simp add: reported_train_def)
  have 2: "length [?msg] = (if i mod 100 = 0 then 1 else 0)"
    using True by simp
  have "0 < progress_of ?msg"
    using samples_pos [OF assms, of n] by (simp add: NUM_TRAIN_SAMPLES_def)
  then have 3: "\<forall>m \<in> set [?msg]. 0 < progress_of m" by simp
  from 1 2 3 show ?thesis by blast
next
  case False
  then have "stdout (reported_train i lo (n + length b) w) = stdout w @ []"
    by (simp add: reported_train_def)
  with False show ?thesis by auto
qed

lemma reported_test_line:
  assumes "b \<noteq> []"
  shows "\<exists>line. stdout (reported_test i lo c (n + length b) w) = stdout w @ line
      \<and> length line = (if i mod 100 = 0 then 1 else 0)
      \<and> (\<forall>m \<in> set line. 0 < progress_of m)"
proof (cases "i mod 100 = 0")
  case True
  let ?msg = "TestProgress (real (n + length b) / real NUM_TEST_SAMPLES)
      (lo / real (n + length b)) (real c / real (n + length b))"
  have 1: "stdout (reported_test i lo c (n + length b) w) = stdout w @ [?msg]"
    using True by (simp add: reported_test_def)
  have 2: "length [?msg] = (if i mod 100 = 0 then 1 else 0)"
    using True by simp
  have "0 < progress_of ?msg"
    using samples_pos [OF assms, of n] by (simp add: NUM_TEST_SAMPLES_def)
  then have 3: "\<forall>m \<in> set [?msg]. 0 < progress_of m" by simp
  from 1 2 3 show ?thesis by blast
next
  case False
  then have "stdout (reported_test i lo c (n + length b) w) = stdout w @ []"
    by (simp add: reported_test_def)
  with False show ?thesis by auto
qed

lemma train_loop_stdout:
  assumes "\<forall>b \<in> set bs. b \<noteq> []"
    and "train_loop L cap i bs ends lo n k w = Inr (lo', n', k', w')"
  shows "\<exists>new. stdout w' = stdout w @ new
      \<and> length new = length (filter (\<lambda>j. j mod 100 = 0) [i..<i + (k' - k)])
      \<and> (\<forall>m \<in> set new. 0 < progress_of m) \<and> k \<le> k'"
  using assms
proof (induction bs arbitrary: i lo n k w)
  case Nil
  then show ?case by (simp split: option.splits)
next
  case (Cons b bs)
  from Cons.prems(1) have b: "b \<noteq> []" and bs: "\<forall>b \<in> set bs. b \<noteq> []" by simp_all
  show ?case
  proof (cases "past_cap i cap")
    case True
    with Cons.prems(2) show ?thesis by (simp add: train_loop_break del: train_loop.simps)
  next
    case False
    let ?lo = "lo + real (length b) * criterion L (model L w b) (map targets b)"
    let ?r = "reported_train i ?lo (n + length b) w"
    let ?w = "optimizer_step L b ?r"
    from Cons.prems(2) have
      "train_loop L cap (Suc i) bs ends ?lo (n + length b) (Suc k) ?w = Inr (lo', n', k', w')"
      unfolding train_loop_step [OF False b] .
    from Cons.IH [OF bs this] obtain new where
      new: "stdout w' = stdout ?w @ new"
        "length new = length (filter (\<lambda>j. j mod 100 = 0) [Suc i..<Suc i + (k' - Suc k)])"
        "\<forall>m \<in> set new. 0 < progress_of m" "Suc k \<le> k'"
      by blast
    from reported_train_line [OF b, where i = i and lo = "?lo" and n = n and w = w] obtain line where
      line: "stdout ?r = stdout w @ line"
        "length line = (if i mod 100 = 0 then 1 else 0)" "\<forall>m \<in> set line. 0 < progress_of m"
      by blast
    from new(4) have d: "k' - k = Suc (k' - Suc k)" by simp
    have "[i..<i + Suc d] = i # [Suc i..<Suc i + d]" for d
      by (simp add: upt_conv_Cons)
    then have range: "[i..<i + (k' - k)] = i # [Suc i..<Suc i + (k' - Suc k)]"
      unfolding d .
    have "stdout w' = stdout w @ (line @ new)"
      using new(1) line(1) by (simp add: optimizer_step_frame)
    moreover have "length (line @ new) = length (filter (\<lambda>j. j mod 100 = 0) [i..<i + (k' - k)])"
      unfolding range using new(2) line(2) by simp
    moreover have "\<forall>m \<in> set (line @ new). 0 < progress_of m"
      using new(3) line(3) by auto
    moreover have "k \<le> k'" using new(4) by simp
    ultimately show ?thesis by blast
  qed
qed

lemma test_loop_returns:
  assumes "\<forall>b \<in> set bs. b \<noteq> []" and "0 < i"
    and "ends = None \<or> budget cap i (length bs) < length bs"
  shows "\<exists>w'. test_loop L cap i bs ends lo c n k w =
      Inr (lo + (\<Sum>b\<leftarrow>take (budget cap i (length bs)) bs.
                  real (length b) * criterion L (model L w b) (map targets b)),
           c + (\<Sum>b\<leftarrow>take (budget cap i (length bs)) bs.
                  correct (model L w b) (map targets b)),
           n + length (concat (take (budget cap i (length bs)) bs)),
           k + budget cap i (length bs), w')
      \<and> calls w' = calls w \<and> training w' = training w
      \<and> params w' = params w \<and> optimizer w' = optimizer w"
  using assms
proof (induction bs arbitrary: i lo c n k w)
  case Nil
  then show ?case by (simp add: budget_def split: option.splits)
next
  case (Cons b bs)
  show ?case
  proof (cases "past_cap i cap")
    case True
    then show ?thesis
      using Cons.prems(2) by (simp add: budget_past_cap del: test_loop.simps)
         (simp add: test_loop_break)
  next
    case False
    from Cons.prems(1) have b: "b \<noteq> []" and bs: "\<forall>b \<in> set bs. b \<noteq> []" by simp_all
    have bud: "budget cap i (length (b # bs)) = Suc (budget cap (Suc i) (length bs))"
      using budget_within_cap [OF Cons.prems(2) False] by simp
    from Cons.prems(3) bud have ends': "ends = None \<or> budget cap (Suc i) (length bs) < length bs"
      by auto
    let ?lo = "lo + real (length b) * criterion L (model L w b) (map targets b)"
    let ?c = "c + correct (model L w b) (map targets b)"
    let ?w = "reported_test i ?lo ?c (n + length b) w"
    let ?m = "budget cap (Suc i) (length bs)"
    have same: "model L ?w = model L w"
      by (rule model_cong) (simp_all add: reported_test_frame)
    from Cons.IH [OF bs _ ends', of ?lo ?c "n + length b" "Suc k" ?w]
    obtain w' where
      run: "test_loop L cap (Suc i) bs ends ?lo ?c (n + length b) (Suc k) ?w =
          Inr (?lo + (\<Sum>b\<leftarrow>take ?m bs.
                  real (length b) * criterion L (model L w b) (map targets b)),
               ?c + (\<Sum>b\<leftarrow>take ?m bs. correct (model L w b) (map targets b)),
               n + length b + length (concat (take ?m bs)),
               Suc k + ?m, w')"
      and fr: "calls w' = calls ?w" "training w' = training ?w"
        "params w' = params ?w" "optimizer w' = optimizer ?w"
      unfolding same by auto
    show ?thesis
      unfolding test_loop_step [OF False b] bud
      using run fr by (simp add: reported_test_frame add.assoc)
  qed
qed

lemma test_loop_raises:
  assumes "\<forall>b \<in> set bs. b \<noteq> []" and "0 < i"
    and "budget cap i (length bs) = length bs"
  shows "test_loop L cap i bs (Some e) lo c n k w = Inl e"
  using assms
proof (induction bs arbitrary: i lo c n k w)
  case Nil
  then show ?case by simp
next
  case (Cons b bs)
  have np: "\<not> past_cap i cap"
  proof
    assume "past_cap i cap"
    from budget_past_cap [OF Cons.prems(2) this] Cons.prems(3) show False by simp
  qed
  from Cons.prems(1) have b: "b \<noteq> []" and bs: "\<forall>b \<in> set bs. b \<noteq> []" by simp_all
  have "budget cap i (length (b # bs)) = Suc (budget cap (Suc i) (length bs))"
    using budget_within_cap [OF Cons.prems(2) np] by simp
  with Cons.prems(3) have full: "budget cap (Suc i) (length bs) = length bs" by simp
  show ?case
    unfolding test_loop_step [OF np b]
    by (rule Cons.IH [OF bs _ full]) simp
qed

lemma test_loop_error:
  assumes "\<forall>b \<in> set bs. b \<noteq> []" and "test_loop L cap i bs ends lo c n k w = Inl e"
  shows "ends = Some e"
  using assms
proof (induction bs arbitrary: i lo c n k w)
  case Nil
  then show ?case by (simp split: option.splits)
next
  case (Cons b bs)
  from Cons.prems(1) have b: "b \<noteq> []" and bs: "\<forall>b \<in> set bs. b \<noteq> []" by simp_all
  show ?case
  proof (cases "past_cap i cap")
    case True
    with Cons.prems(2) show ?thesis by (simp add: test_loop_break del: test_loop.simps)
  next
    case False
    from Cons.prems(2) show ?thesis
      unfolding test_loop_step [OF False b] by (rule Cons.IH [OF bs])
  qed
qed

lemma test_loop_frame:
  assumes "test_loop L cap i bs ends lo c n k w = Inr (lo', c', n', k', w')"
  shows "params w' = params w \<and> optimizer w' = optimizer w
      \<and> training w' = training w \<and> calls w' = calls w"
  using assms
proof (induction bs arbitrary: i lo c n k w)
  case Nil
  then show ?case by (simp split: option.splits)
next
  case (Cons b bs)
  show ?case
  proof (cases "past_cap i cap")
    case True
    with Cons.prems show ?thesis by simp
  next
    case False
    let ?lo = "lo + real (length (model L w b)) * criterion L (model L w b) (map targets b)"
    let ?c = "c + correct (model L w b) (map targets b)"
    let ?n = "n + length (model L w b)"
    show ?thesis
    proof (cases "i mod 100 = 0")
      case True
      with False Cons.prems obtain w1 where
        r: "test_report ?lo ?c ?n w = Inr w1"
        and go: "test_loop L cap (Suc i) bs ends ?lo ?c ?n (Suc k) w1 = Inr (lo', c', n', k', w')"
        by (auto simp: Let_def split: sum.splits)
      from r have "params w1 = params w \<and> optimizer w1 = optimizer w
          \<and> training w1 = training w \<and> calls w1 = calls w"
        by (auto simp: test_report_def py_div_def Let_def split: if_splits)
      with Cons.IH [OF go] show ?thesis by simp
    next
      case nr: False
      with False Cons.prems have
        "test_loop L cap (Suc i) bs ends ?lo ?c ?n (Suc k) w = Inr (lo', c', n', k', w')"
        by (simp add: Let_def)
      from Cons.IH [OF this] show ?thesis .
    qed
  qed
qed

lemma test_loop_stdout:
  assumes "\<forall>b \<in> set bs. b \<noteq> []"
    and "test_loop L cap i bs ends lo c n k w = Inr (lo', c', n', k', w')"
  shows "\<exists>new. stdout w' = stdout w @ new
      \<and> length new = length (filter (\<lambda>j. j mod 100 = 0) [i..<i + (k' - k)])
      \<and> (\<forall>m \<in> set new. 0 < progress_of m) \<and> k \<le> k'"
  using assms
proof (induction bs arbitrary: i lo c n k w)
  case Nil
  then show ?case by (simp split: option.splits)
next
  case (Cons b bs)
  from Cons.prems(1) have b: "b \<noteq> []" and bs: "\<forall>b \<in> set bs. b \<noteq> []" by simp_all
  show ?case
  proof (cases "past_cap i cap")
    case True
    with Cons.prems(2) show ?thesis by (simp add: test_loop_break del: test_loop.simps)
  next
    case False
    let ?lo = "lo + real (length b) * criterion L (model L w b) (map targets b)"
    let ?c = "c + correct (model L w b) (map targets b)"
    let ?w = "reported_test i ?lo ?c (n + length b) w"
    from Cons.prems(2) have
      "test_loop L cap (Suc i) bs ends ?lo ?c (n + length b) (Suc k) ?w = Inr (lo', c', n', k', w')"
      unfolding test_loop_step [OF False b] .
    from Cons.IH [OF bs this] obtain new where
      new: "stdout w' = stdout ?w @ new"
        "length new = length (filter (\<lambda>j. j mod 100 = 0) [Suc i..<Suc i + (k' - Suc k)])"
        "\<forall>m \<in> set new. 0 < progress_of m" "Suc k \<le> k'"
      by blast
    from reported_test_line [OF b, where i = i and lo = "?lo" and c = "?c" and n = n and w = w] obtain line where
      line: "stdout ?w = stdout w @ line"
        "length line = (if i mod 100 = 0 then 1 else 0)" "\<forall>m \<in> set line. 0 < progress_of m"
      by blast
    from new(4) have d: "k' - k = Suc (k' - Suc k)" by simp
    have "[i..<i + Suc d] = i # [Suc i..<Suc i + d]" for d
      by (simp add: upt_conv_Cons)
    then have range: "[i..<i + (k' - k)] = i # [Suc i..<Suc i + (k' - Suc k)]"
      unfolding d .
    have "stdout w' = stdout w @ (line @ new)"
      using new(1) line(1) by simp
    moreover have "length (line @ new) = length (filter (\<lambda>j. j mod 100 = 0) [i..<i + (k' - k)])"
      unfolding range using new(2) line(2) by simp
    moreover have "\<forall>m \<in> set (line @ new). 0 < progress_of m"
      using new(3) line(3) by auto
    moreover have "k \<le> k'" using new(4) by simp
    ultimately show ?thesis by blast
  qed
qed

subsection \<open>The two passes as a whole\<close>


lemma train_no_steps:
  assumes "c \<le> 0"
  shows "train L w dl (Some c) = Inr (None, 0, w\<lparr>calls := calls w @ [TrainCall (Some c)]\<rparr>)"
  using assms by (simp add: train_def)

lemma test_no_steps:
  assumes "c \<le> 0"
  shows "test L w dl (Some c) = Inr (None, 0, w\<lparr>calls := calls w @ [TestCall (Some c)]\<rparr>)"
  using assms by (simp add: test_def)

lemma steps_within_nonpos:
  assumes "c \<le> 0"
  shows "steps_within (Some c) n = 0"
proof -
  from assms have "\<lfloor>c\<rfloor> \<le> 0" by (simp add: floor_le_iff)
  then show ?thesis by (simp add: steps_within_def)
qed

lemma steps_within_pos_cap:
  assumes "0 < steps_within cap n"
  shows "\<not> (case cap of None \<Rightarrow> False | Some c \<Rightarrow> c \<le> 0)"
proof (cases cap)
  case None
  then show ?thesis by simp
next
  case (Some c)
  have "\<not> c \<le> 0"
  proof
    assume "c \<le> 0"
    from steps_within_nonpos [OF this, of n] assms Some show False by simp
  qed
  with Some show ?thesis by simp
qed

lemma concat_take_pos:
  assumes "\<forall>b \<in> set bs. b \<noteq> []" and "0 < m" and "m \<le> length bs"
  shows "0 < length (concat (take m bs))"
proof -
  from assms(2,3) obtain b rest where bs: "bs = b # rest" by (cases bs) auto
  from assms(2) obtain m' where m: "m = Suc m'" by (cases m) auto
  from assms(1) bs have "b \<noteq> []" by simp
  then show ?thesis by (simp add: bs m)
qed


lemma test_frame:
  assumes "test L w dl cap = Inr (v, k, w')"
  shows "calls w' = calls w @ [TestCall cap] \<and> params w' = params w \<and> optimizer w' = optimizer w"
proof (cases "case cap of None \<Rightarrow> False | Some c \<Rightarrow> c \<le> 0")
  case True
  with assms show ?thesis by (auto simp: test_def)
next
  case False
  let ?w = "w\<lparr>calls := calls w @ [TestCall cap]\<rparr>"
  from False assms obtain lo c n where
    "test_loop L cap 1 (yielded dl) (raised dl) 0 0 0 0 (?w\<lparr>training := False\<rparr>)
      = Inr (lo, c, n, k, w')"
    by (auto simp: test_def Let_def split: sum.splits)
  from test_loop_frame [OF this] show ?thesis by simp
qed

lemma train_returns:
  assumes "\<forall>b \<in> set bs. b \<noteq> []" and "0 < steps_within cap (length bs)"
    and "ends = None \<or> steps_within cap (length bs) < length bs"
  shows "\<exists>mean_loss w'. train L w \<lparr>yielded = bs, raised = ends\<rparr> cap =
      Inr (Some mean_loss, steps_within cap (length bs), w')"
proof -
  let ?m = "steps_within cap (length bs)"
  let ?w = "w\<lparr>calls := calls w @ [TrainCall cap]\<rparr>"
  have m: "budget cap 1 (length bs) = ?m" by (rule budget_start)
  from assms(3) have e: "ends = None \<or> budget cap 1 (length bs) < length bs"
    unfolding m .
  from train_loop_returns [OF assms(1) _ e, of L 0 0 0 "?w\<lparr>training := True\<rparr>"]
  obtain lo' w' where
    run: "train_loop L cap 1 bs ends 0 0 0 (?w\<lparr>training := True\<rparr>) =
        Inr (lo', length (concat (take ?m bs)), ?m, w')"
    unfolding m by auto
  have "?m \<le> length bs" using budget_le [of cap 1 "length bs"] unfolding m .
  from concat_take_pos [OF assms(1,2) this]
  have "real (length (concat (take ?m bs))) \<noteq> 0" by simp
  then have "py_div Final lo' (real (length (concat (take ?m bs))))
      = Inr (lo' / real (length (concat (take ?m bs))))"
    by (simp add: py_div_def)
  then have "train L w \<lparr>yielded = bs, raised = ends\<rparr> cap =
      Inr (Some (lo' / real (length (concat (take ?m bs)))), ?m, w')"
    using steps_within_pos_cap [OF assms(2)] run
    by (simp add: train_def Let_def)
  then show ?thesis by blast
qed

lemma train_steps:
  assumes "\<forall>b \<in> set bs. b \<noteq> []"
    and "train L w \<lparr>yielded = bs, raised = None\<rparr> cap = Inr (v, k, w')"
  shows "k = steps_within cap (length bs)"
proof (cases "case cap of None \<Rightarrow> False | Some c \<Rightarrow> c \<le> 0")
  case True
  then obtain c where c: "cap = Some c" "c \<le> 0" by (cases cap) auto
  with assms(2) have "k = 0" by (simp add: train_no_steps)
  with c show ?thesis by (simp add: steps_within_nonpos)
next
  case False
  let ?w = "w\<lparr>calls := calls w @ [TrainCall cap]\<rparr>"
  from False assms(2) obtain lo n where
    run: "train_loop L cap 1 bs None 0 0 0 (?w\<lparr>training := True\<rparr>) = Inr (lo, n, k, w')"
    by (auto simp: train_def Let_def split: sum.splits)
  from train_loop_returns [OF assms(1), of 1 None cap L 0 0 0 "?w\<lparr>training := True\<rparr>"] run
  have "k = budget cap 1 (length bs)" by auto
  then show ?thesis by (simp only: budget_start)
qed

lemma test_returns:
  assumes "\<forall>b \<in> set bs. b \<noteq> []" and "0 < steps_within cap (length bs)"
    and "ends = None \<or> steps_within cap (length bs) < length bs"
  shows "\<exists>w'. test L w \<lparr>yielded = bs, raised = ends\<rparr> cap =
      Inr (Some
            ((\<Sum>b\<leftarrow>take (steps_within cap (length bs)) bs.
                real (length b)
                  * criterion L (model L (w\<lparr>training := False\<rparr>) b) (map targets b))
               / real (length (concat (take (steps_within cap (length bs)) bs))),
             real (\<Sum>b\<leftarrow>take (steps_within cap (length bs)) bs.
                correct (model L (w\<lparr>training := False\<rparr>) b) (map targets b))
               / real (length (concat (take (steps_within cap (length bs)) bs)))),
           steps_within cap (length bs), w')"
proof -
  let ?m = "steps_within cap (length bs)"
  let ?w = "w\<lparr>calls := calls w @ [TestCall cap]\<rparr>"
  let ?w0 = "?w\<lparr>training := False\<rparr>"
  have m: "budget cap 1 (length bs) = ?m" by (rule budget_start)
  from assms(3) have e: "ends = None \<or> budget cap 1 (length bs) < length bs"
    unfolding m .
  have same: "model L ?w0 = model L (w\<lparr>training := False\<rparr>)"
    by (rule model_cong) simp_all
  from test_loop_returns [OF assms(1) _ e, of L 0 0 0 0 ?w0]
  obtain w' where
    run: "test_loop L cap 1 bs ends 0 0 0 0 ?w0 =
        Inr ((\<Sum>b\<leftarrow>take ?m bs.
                real (length b)
                  * criterion L (model L (w\<lparr>training := False\<rparr>) b) (map targets b)),
             (\<Sum>b\<leftarrow>take ?m bs. correct (model L (w\<lparr>training := False\<rparr>) b) (map targets b)),
             length (concat (take ?m bs)), ?m, w')"
    unfolding m same by auto
  have "?m \<le> length bs" using budget_le [of cap 1 "length bs"] unfolding m .
  from concat_take_pos [OF assms(1,2) this]
  have nz: "real (length (concat (take ?m bs))) \<noteq> 0" by simp
  show ?thesis
    using steps_within_pos_cap [OF assms(2)] run nz
    by (simp add: test_def Let_def py_div_def)
qed

lemma test_steps:
  assumes "\<forall>b \<in> set bs. b \<noteq> []"
    and "test L w \<lparr>yielded = bs, raised = None\<rparr> cap = Inr (v, k, w')"
  shows "k = steps_within cap (length bs)"
proof (cases "case cap of None \<Rightarrow> False | Some c \<Rightarrow> c \<le> 0")
  case True
  then obtain c where c: "cap = Some c" "c \<le> 0" by (cases cap) auto
  with assms(2) have "k = 0" by (simp add: test_no_steps)
  with c show ?thesis by (simp add: steps_within_nonpos)
next
  case False
  let ?w = "w\<lparr>calls := calls w @ [TestCall cap]\<rparr>"
  from False assms(2) obtain lo c n where
    run: "test_loop L cap 1 bs None 0 0 0 0 (?w\<lparr>training := False\<rparr>) = Inr (lo, c, n, k, w')"
    by (auto simp: test_def Let_def split: sum.splits)
  from test_loop_returns [OF assms(1), of 1 None cap L 0 0 0 0 "?w\<lparr>training := False\<rparr>"] run
  have "k = budget cap 1 (length bs)" by auto
  then show ?thesis by (simp only: budget_start)
qed

subsection \<open>Step caps\<close>

lemma demo_nonempty:
  "\<forall>b \<in> set [[demo_miss], [demo_hit], [demo_miss]]. b \<noteq> []"
  by simp

lemma steps_within_demo: "steps_within (Some (5 / 2)) (length [[demo_miss], [demo_hit], [demo_miss]]) = 2"
  by (simp add: steps_within_def)

text \<open>
  Claim C1, as stated, fails. The caps that the driver computes are floats; with the cap
  \<open>1/2\<close> and one available batch the cap is below the number of available batches, yet
  \<open>train\<close> executes no loop body and then raises \<open>ZeroDivisionError\<close> at the quotient
  after the loop. With the cap \<open>5/2\<close> and three batches it executes 2 loop bodies, which
  is not the minimum of \<open>5/2\<close> and 3.
\<close>

theorem step_cap_counterexample:
  "(1 / 2 :: real) < real (length [[demo_miss]])
   \<and> train demo_learner demo_world \<lparr>yielded = [[demo_miss]], raised = None\<rparr> (Some (1 / 2))
       = Inl (ZeroDivisionError Final)
   \<and> train demo_learner demo_world
         \<lparr>yielded = [[demo_miss], [demo_hit], [demo_miss]], raised = None\<rparr> (Some (5 / 2))
       = Inr (Some 1, 2,
              \<lparr>params = 2, training = True, optimizer = 2, stdout = [],
                calls = [TrainCall (Some (5 / 2))]\<rparr>)
   \<and> real 2 \<noteq> min (5 / 2) (real (length [[demo_miss], [demo_hit], [demo_miss]]))"
  by (simp add: train_def past_cap_def py_div_def model_def criterion_def optimizer_step_def
      demo_learner_def demo_world_def demo_miss_def demo_hit_def)

text \<open>
  Claim C1, amended. For every loader that yields \<open>n\<close> non-empty batches and does not
  raise, and every cap \<open>c\<close>: whenever \<open>train\<close> or \<open>test\<close> returns, it has executed exactly
  \<open>min (floor c) n\<close> loop bodies (all \<open>n\<close> without a cap, none for \<open>c \<le> 0\<close>); a cap
  \<open>c \<le> 0\<close> executes no loop body and returns \<open>None\<close> without error; and when
  \<open>min (floor c) n\<close> is at least 1, in particular for a cap \<open>1 \<le> c < n\<close>, the pass ends
  after that many loop bodies and returns its result without error.
\<close>

theorem step_cap_iterations:
  assumes "\<forall>b \<in> set bs. b \<noteq> []"
  shows "(\<forall>v k w'. train L w \<lparr>yielded = bs, raised = None\<rparr> cap = Inr (v, k, w')
            \<longrightarrow> k = steps_within cap (length bs))
   \<and> (\<forall>v k w'. test L w \<lparr>yielded = bs, raised = None\<rparr> cap = Inr (v, k, w')
            \<longrightarrow> k = steps_within cap (length bs))
   \<and> (\<forall>c \<le> 0.
         train L w \<lparr>yielded = bs, raised = None\<rparr> (Some c)
           = Inr (None, 0, w\<lparr>calls := calls w @ [TrainCall (Some c)]\<rparr>)
         \<and> test L w \<lparr>yielded = bs, raised = None\<rparr> (Some c)
           = Inr (None, 0, w\<lparr>calls := calls w @ [TestCall (Some c)]\<rparr>))
   \<and> (0 < steps_within cap (length bs) \<longrightarrow>
         (\<exists>mean_loss w'. train L w \<lparr>yielded = bs, raised = None\<rparr> cap
             = Inr (Some mean_loss, steps_within cap (length bs), w'))
         \<and> (\<exists>result w'. test L w \<lparr>yielded = bs, raised = None\<rparr> cap
             = Inr (Some result, steps_within cap (length bs), w')))"
proof -
  have 1: "\<forall>v k w'. train L w \<lparr>yielded = bs, raised = None\<rparr> cap = Inr (v, k, w')
      \<longrightarrow> k = steps_within cap (length bs)"
    using train_steps [OF assms] by blast
  have 2: "\<forall>v k w'. test L w \<lparr>yielded = bs, raised = None\<rparr> cap = Inr (v, k, w')
      \<longrightarrow> k = steps_within cap (length bs)"
    using test_steps [OF assms] by blast
  have 3: "\<forall>c \<le> 0.
         train L w \<lparr>yielded = bs, raised = None\<rparr> (Some c)
           = Inr (None, 0, w\<lparr>calls := calls w @ [TrainCall (Some c)]\<rparr>)
         \<and> test L w \<lparr>yielded = bs, raised = None\<rparr> (Some c)
           = Inr (None, 0, w\<lparr>calls := calls w @ [TestCall (Some c)]\<rparr>)"
    by (simp add: train_no_steps test_no_steps)
  have 4: "0 < steps_within cap (length bs) \<longrightarrow>
         (\<exists>mean_loss w'. train L w \<lparr>yielded = bs, raised = None\<rparr> cap
             = Inr (Some mean_loss, steps_within cap (length bs), w'))
         \<and> (\<exists>result w'. test L w \<lparr>yielded = bs, raised = None\<rparr> cap
             = Inr (Some result, steps_within cap (length bs), w'))"
  proof
    assume pos: "0 < steps_within cap (length bs)"
    from train_returns [OF assms pos, of None L w]
    have a: "\<exists>mean_loss w'. train L w \<lparr>yielded = bs, raised = None\<rparr> cap
        = Inr (Some mean_loss, steps_within cap (length bs), w')"
      by simp
    from test_returns [OF assms pos, of None L w]
    have b: "\<exists>result w'. test L w \<lparr>yielded = bs, raised = None\<rparr> cap
        = Inr (Some result, steps_within cap (length bs), w')"
      by auto
    from a b show "(\<exists>mean_loss w'. train L w \<lparr>yielded = bs, raised = None\<rparr> cap
             = Inr (Some mean_loss, steps_within cap (length bs), w'))
         \<and> (\<exists>result w'. test L w \<lparr>yielded = bs, raised = None\<rparr> cap
             = Inr (Some result, steps_within cap (length bs), w'))" ..
  qed
  from 1 2 3 4 show ?thesis by blast
qed

text \<open>
  The theorem at three batches of one element: the cap \<open>5/2\<close> allows 2 loop bodies, and
  the cap 0 none.
\<close>

theorem step_cap_iterations_witness:
  "[demo_miss] \<noteq> [] \<and> [demo_hit] \<noteq> []
   \<and> (\<exists>mean_loss w'. train demo_learner demo_world
         \<lparr>yielded = [[demo_miss], [demo_hit], [demo_miss]], raised = None\<rparr> (Some (5 / 2))
       = Inr (Some mean_loss, 2, w'))
   \<and> (\<exists>result w'. test demo_learner demo_world
         \<lparr>yielded = [[demo_miss], [demo_hit], [demo_miss]], raised = None\<rparr> (Some (5 / 2))
       = Inr (Some result, 2, w'))
   \<and> test demo_learner demo_world
         \<lparr>yielded = [[demo_miss], [demo_hit], [demo_miss]], raised = None\<rparr> (Some 0)
       = Inr (None, 0, demo_world\<lparr>calls := calls demo_world @ [TestCall (Some 0)]\<rparr>)"
proof -
  note inst = step_cap_iterations [OF demo_nonempty, of demo_learner demo_world]
  have pos: "0 < steps_within (Some (5 / 2)) (length [[demo_miss], [demo_hit], [demo_miss]])"
    unfolding steps_within_demo by simp
  from inst [of "Some (5 / 2)"] pos
  have a: "(\<exists>mean_loss w'. train demo_learner demo_world
         \<lparr>yielded = [[demo_miss], [demo_hit], [demo_miss]], raised = None\<rparr> (Some (5 / 2))
       = Inr (Some mean_loss, 2, w'))
   \<and> (\<exists>result w'. test demo_learner demo_world
         \<lparr>yielded = [[demo_miss], [demo_hit], [demo_miss]], raised = None\<rparr> (Some (5 / 2))
       = Inr (Some result, 2, w'))"
    unfolding steps_within_demo by blast
  from inst [of "Some 0"]
  have b: "test demo_learner demo_world
         \<lparr>yielded = [[demo_miss], [demo_hit], [demo_miss]], raised = None\<rparr> (Some 0)
       = Inr (None, 0, demo_world\<lparr>calls := calls demo_world @ [TestCall (Some 0)]\<rparr>)"
    by simp
  from a b show ?thesis by simp
qed

subsection \<open>Progress reports\<close>

lemma train_error:
  assumes "\<forall>b \<in> set bs. b \<noteq> []"
    and "train L w \<lparr>yielded = bs, raised = ends\<rparr> cap = Inl e"
  shows "e = ZeroDivisionError Final \<or> ends = Some e"
proof (cases "case cap of None \<Rightarrow> False | Some c \<Rightarrow> c \<le> 0")
  case True
  with assms(2) show ?thesis by (auto simp: train_def)
next
  case False
  let ?w = "w\<lparr>calls := calls w @ [TrainCall cap], training := True\<rparr>"
  show ?thesis
  proof (cases "train_loop L cap 1 bs ends 0 0 0 ?w")
    case (Inl e')
    from train_loop_error [OF assms(1) Inl] have "ends = Some e'" .
    moreover from False Inl assms(2) have "e = e'" by (simp add: train_def)
    ultimately show ?thesis by simp
  next
    case (Inr r)
    obtain lo n k w' where r: "r = (lo, n, k, w')" by (cases r)
    from False Inr r assms(2) have "py_div Final lo (real n) = Inl e"
      by (simp add: train_def split: sum.splits)
    then have "e = ZeroDivisionError Final"
      by (auto simp: py_div_def split: if_splits)
    then show ?thesis ..
  qed
qed

lemma test_error:
  assumes "\<forall>b \<in> set bs. b \<noteq> []"
    and "test L w \<lparr>yielded = bs, raised = ends\<rparr> cap = Inl e"
  shows "e = ZeroDivisionError Final \<or> ends = Some e"
proof (cases "case cap of None \<Rightarrow> False | Some c \<Rightarrow> c \<le> 0")
  case True
  with assms(2) show ?thesis by (auto simp: test_def)
next
  case False
  let ?w = "w\<lparr>calls := calls w @ [TestCall cap], training := False\<rparr>"
  show ?thesis
  proof (cases "test_loop L cap 1 bs ends 0 0 0 0 ?w")
    case (Inl e')
    from test_loop_error [OF assms(1) Inl] have "ends = Some e'" .
    moreover from False Inl assms(2) have "e = e'" by (simp add: test_def)
    ultimately show ?thesis by simp
  next
    case (Inr r)
    obtain lo c n k w' where r: "r = (lo, c, n, k, w')" by (cases r)
    from False Inr r assms(2) have
      "py_div Final lo (real n) = Inl e \<or> py_div Final (real c) (real n) = Inl e"
      by (simp add: test_def split: sum.splits)
    then have "e = ZeroDivisionError Final"
      by (auto simp: py_div_def split: if_splits)
    then show ?thesis ..
  qed
qed

lemma train_stdout:
  assumes "\<forall>b \<in> set bs. b \<noteq> []"
    and "train L w \<lparr>yielded = bs, raised = ends\<rparr> cap = Inr (v, k, w')"
  shows "\<exists>new. stdout w' = stdout w @ new
      \<and> length new = length (filter (\<lambda>j. j mod 100 = 0) [1..<Suc k])
      \<and> (\<forall>m \<in> set new. 0 < progress_of m)"
proof (cases "case cap of None \<Rightarrow> False | Some c \<Rightarrow> c \<le> 0")
  case True
  with assms(2) show ?thesis by (auto simp: train_def)
next
  case False
  let ?w = "w\<lparr>calls := calls w @ [TrainCall cap], training := True\<rparr>"
  from False assms(2) obtain lo n where
    run: "train_loop L cap 1 bs ends 0 0 0 ?w = Inr (lo, n, k, w')"
    by (auto simp: train_def Let_def split: sum.splits)
  from train_loop_stdout [OF assms(1) run] show ?thesis by simp
qed

lemma test_stdout:
  assumes "\<forall>b \<in> set bs. b \<noteq> []"
    and "test L w \<lparr>yielded = bs, raised = ends\<rparr> cap = Inr (v, k, w')"
  shows "\<exists>new. stdout w' = stdout w @ new
      \<and> length new = length (filter (\<lambda>j. j mod 100 = 0) [1..<Suc k])
      \<and> (\<forall>m \<in> set new. 0 < progress_of m)"
proof (cases "case cap of None \<Rightarrow> False | Some c \<Rightarrow> c \<le> 0")
  case True
  with assms(2) show ?thesis by (auto simp: test_def)
next
  case False
  let ?w = "w\<lparr>calls := calls w @ [TestCall cap], training := False\<rparr>"
  from False assms(2) obtain lo c n where
    run: "test_loop L cap 1 bs ends 0 0 0 0 ?w = Inr (lo, c, n, k, w')"
    by (auto simp: test_def Let_def split: sum.splits)
  from test_loop_stdout [OF assms(1) run] show ?thesis by simp
qed

text \<open>
  The guard of the progress report. In \<open>train\<close> and in \<open>test\<close>, the quotients of the
  progress report (the running mean loss, the running accuracy) are computed only at
  iterations that are multiples of the cadence of 100, hence after at least one batch has
  been processed, so none of them divides by zero samples: over a loader of non-empty
  batches a pass never raises the \<open>ZeroDivisionError\<close> of a report (the only errors are
  the loader's own and that of the quotient after the loop), and a pass that has executed
  \<open>k\<close> loop bodies has printed one progress line for each multiple of 100 among \<open>1..k\<close>,
  each showing a positive number of samples. The throughput of the line divides by elapsed
  time, not by samples.
\<close>

lemma progress_reports_have_samples:
  assumes "\<forall>b \<in> set bs. b \<noteq> []"
  shows "train L w \<lparr>yielded = bs, raised = None\<rparr> cap \<noteq> Inl (ZeroDivisionError Report)
   \<and> test L w \<lparr>yielded = bs, raised = None\<rparr> cap \<noteq> Inl (ZeroDivisionError Report)
   \<and> (\<forall>e. train L w \<lparr>yielded = bs, raised = ends\<rparr> cap = Inl e
          \<longrightarrow> e = ZeroDivisionError Final \<or> ends = Some e)
   \<and> (\<forall>e. test L w \<lparr>yielded = bs, raised = ends\<rparr> cap = Inl e
          \<longrightarrow> e = ZeroDivisionError Final \<or> ends = Some e)
   \<and> (\<forall>v k w'. train L w \<lparr>yielded = bs, raised = ends\<rparr> cap = Inr (v, k, w') \<longrightarrow>
         (\<exists>new. stdout w' = stdout w @ new
            \<and> length new = length (filter (\<lambda>j. j mod 100 = 0) [1..<Suc k])
            \<and> (\<forall>m \<in> set new. 0 < progress_of m)))
   \<and> (\<forall>v k w'. test L w \<lparr>yielded = bs, raised = ends\<rparr> cap = Inr (v, k, w') \<longrightarrow>
         (\<exists>new. stdout w' = stdout w @ new
            \<and> length new = length (filter (\<lambda>j. j mod 100 = 0) [1..<Suc k])
            \<and> (\<forall>m \<in> set new. 0 < progress_of m)))"
proof -
  have 1: "train L w \<lparr>yielded = bs, raised = None\<rparr> cap \<noteq> Inl (ZeroDivisionError Report)"
    using train_error [OF assms, of L w None cap "ZeroDivisionError Report"] by auto
  have 2: "test L w \<lparr>yielded = bs, raised = None\<rparr> cap \<noteq> Inl (ZeroDivisionError Report)"
    using test_error [OF assms, of L w None cap "ZeroDivisionError Report"] by auto
  have 3: "\<forall>e. train L w \<lparr>yielded = bs, raised = ends\<rparr> cap = Inl e
          \<longrightarrow> e = ZeroDivisionError Final \<or> ends = Some e"
    using train_error [OF assms] by blast
  have 4: "\<forall>e. test L w \<lparr>yielded = bs, raised = ends\<rparr> cap = Inl e
          \<longrightarrow> e = ZeroDivisionError Final \<or> ends = Some e"
    using test_error [OF assms] by blast
  have 5: "\<forall>v k w'. train L w \<lparr>yielded = bs, raised = ends\<rparr> cap = Inr (v, k, w') \<longrightarrow>
         (\<exists>new. stdout w' = stdout w @ new
            \<and> length new = length (filter (\<lambda>j. j mod 100 = 0) [1..<Suc k])
            \<and> (\<forall>m \<in> set new. 0 < progress_of m))"
    using train_stdout [OF assms] by blast
  have 6: "\<forall>v k w'. test L w \<lparr>yielded = bs, raised = ends\<rparr> cap = Inr (v, k, w') \<longrightarrow>
         (\<exists>new. stdout w' = stdout w @ new
            \<and> length new = length (filter (\<lambda>j. j mod 100 = 0) [1..<Suc k])
            \<and> (\<forall>m \<in> set new. 0 < progress_of m))"
    using test_stdout [OF assms] by blast
  from 1 2 3 4 5 6 show ?thesis by blast
qed

lemma multiples_upto_100: "length (filter (\<lambda>j. j mod 100 = 0) [1..<Suc 100]) = 1"
  by code_simp

text \<open>
  At a loader of 100 batches of one element the pass executes 100 loop bodies and prints
  exactly one progress line, which shows a positive number of samples.
\<close>

lemma progress_reports_have_samples_at_100:
  "[demo_hit] \<noteq> []
   \<and> (\<exists>mean_loss w' new.
        train demo_learner demo_world \<lparr>yielded = replicate 100 [demo_hit], raised = None\<rparr> None
          = Inr (Some mean_loss, 100, w')
        \<and> stdout w' = stdout demo_world @ new \<and> length new = 1
        \<and> (\<forall>m \<in> set new. 0 < progress_of m))"
proof -
  have ne: "\<forall>b \<in> set (replicate 100 [demo_hit]). b \<noteq> []" by simp
  have k: "steps_within None (length (replicate 100 [demo_hit])) = 100"
    by (simp add: steps_within_def)
  from train_returns [OF ne, of None None demo_learner demo_world]
  obtain mean_loss w' where
    run: "train demo_learner demo_world \<lparr>yielded = replicate 100 [demo_hit], raised = None\<rparr> None
          = Inr (Some mean_loss, 100, w')"
    unfolding k by auto
  from progress_reports_have_samples [OF ne, of demo_learner demo_world None None] run
  obtain new where "stdout w' = stdout demo_world @ new"
    "length new = length (filter (\<lambda>j. j mod 100 = 0) [1..<Suc 100])"
    "\<forall>m \<in> set new. 0 < progress_of m"
    by blast
  with run have "\<exists>mean_loss w' new.
        train demo_learner demo_world \<lparr>yielded = replicate 100 [demo_hit], raised = None\<rparr> None
          = Inr (Some mean_loss, 100, w')
        \<and> stdout w' = stdout demo_world @ new \<and> length new = 1
        \<and> (\<forall>m \<in> set new. 0 < progress_of m)"
    unfolding multiples_upto_100 by blast
  then show ?thesis by simp
qed

text \<open>
  Claim C6 says that no division by zero samples is reachable in \<open>train\<close> and \<open>test\<close>.
  The progress reports are guarded, as shown above, but the quotient by \<open>total_samples\<close>
  after the loop is not: with a positive cap below 1 the loop breaks at its first
  iteration, and over a loader without batches it never runs, and in both cases the
  quotient divides by zero samples. The driver computes such a cap from an epoch count
  with a small fractional part: with the fraction \<open>1/4\<close> and a batch size of half the
  training samples the remainder is \<open>1/2\<close> step, and the run ends in a
  \<open>ZeroDivisionError\<close>.
\<close>

theorem final_quotient_divides_by_zero:
  "test demo_learner demo_world demo_test_dataloader (Some (1 / 2))
     = Inl (ZeroDivisionError Final)
   \<and> train demo_learner demo_world \<lparr>yielded = [], raised = None\<rparr> None
     = Inl (ZeroDivisionError Final)
   \<and> remainder_train_steps (demo_config\<lparr>NUM_EPOCHS := 5 / 4\<rparr>) = Inr (1 / 2)
   \<and> run_epochs (demo_config\<lparr>NUM_EPOCHS := 5 / 4\<rparr>) demo_learner demo_train_dataloader
       demo_test_dataloader demo_world
     = Inl (ZeroDivisionError Final)"
  by (simp add: run_epochs_def remainder_train_steps_def max_test_steps_def whole_epochs_def
      py_int_def py_div_def train_and_test_def train_def test_def past_cap_def model_def
      criterion_def correct_def argmax_def optimizer_step_def NUM_TRAIN_SAMPLES_def
      demo_config_def demo_learner_def demo_world_def demo_miss_def demo_hit_def
      demo_train_dataloader_def demo_test_dataloader_def)

subsection \<open>The epoch driver\<close>

lemma nat_py_int: "nat (py_int x) = nat \<lfloor>x\<rfloor>"
proof (cases "0 \<le> x")
  case True
  then show ?thesis by (simp add: py_int_def)
next
  case False
  then have "\<lceil>x\<rceil> \<le> 0" and "\<lfloor>x\<rfloor> \<le> 0"
    by (simp_all add: ceiling_le_iff floor_le_iff)
  with False show ?thesis by (simp add: py_int_def)
qed




lemma train_and_test_zero_cap:
  assumes "c \<le> 0"
  shows "\<exists>e. train_and_test L tdl sdl tc (Some c) ep w = Inl e"
    and "train L w tdl tc = Inr (v, k, w1)
      \<Longrightarrow> train_and_test L tdl sdl tc (Some c) ep w = Inl TypeError"
proof -
  show "train_and_test L tdl sdl tc (Some c) ep w = Inl TypeError"
    if "train L w tdl tc = Inr (v, k, w1)" for v k w1
    using that assms by (simp add: train_and_test_def test_no_steps)
  then show "\<exists>e. train_and_test L tdl sdl tc (Some c) ep w = Inl e"
    by (cases "train L w tdl tc") (auto simp: train_and_test_def)
qed
























subsection \<open>A cap of zero\<close>

lemma run_epochs_zero_cap:
  assumes "max_test_steps cfg = Inr (Some c)" and "c \<le> 0" and "0 < NUM_EPOCHS cfg"
  shows "\<exists>e. run_epochs cfg L tdl sdl w = Inl e"
proof (cases "remainder_train_steps cfg")
  case (Inl e)
  then show ?thesis by (simp add: run_epochs_def)
next
  case (Inr rem)
  then have B: "real (TRAIN_BATCH_SIZE cfg) \<noteq> 0"
    and rem_eq: "rem = (NUM_EPOCHS cfg - real_of_int (py_int (NUM_EPOCHS cfg)))
        * real NUM_TRAIN_SAMPLES / real (TRAIN_BATCH_SIZE cfg)"
    by (auto simp: remainder_train_steps_def whole_epochs_def py_div_def split: if_splits)
  let ?n = "nat (whole_epochs cfg)"
  show ?thesis
  proof (cases "?n")
    case 0
    then have "\<lfloor>NUM_EPOCHS cfg\<rfloor> \<le> 0"
      using nat_py_int [of "NUM_EPOCHS cfg"] by (simp add: whole_epochs_def)
    moreover from assms(3) have "0 \<le> \<lfloor>NUM_EPOCHS cfg\<rfloor>" by simp
    ultimately have "\<lfloor>NUM_EPOCHS cfg\<rfloor> = 0" by linarith
    with assms(3) have "py_int (NUM_EPOCHS cfg) = 0"
      by (simp only: py_int_def less_imp_le if_True)
    with rem_eq B assms(3) have "rem \<noteq> 0" by (simp add: NUM_TRAIN_SAMPLES_def)
    moreover from train_and_test_zero_cap(1) [OF assms(2)] obtain e where
      "train_and_test L (tdl ?n) sdl (Some rem) (Some c) (?n - 1) w = Inl e"
      by blast
    ultimately show ?thesis
      using Inr assms(1) 0 by (simp add: run_epochs_def)
  next
    case (Suc m)
    then have range: "[0..<?n] = 0 # [1..<?n]" by (simp add: upt_conv_Cons)
    from train_and_test_zero_cap(1) [OF assms(2)] obtain e where
      "train_and_test L (tdl 0) sdl None (Some c) 0 w = Inl e"
      by blast
    then show ?thesis
      using Inr assms(1) by (simp add: run_epochs_def range)
  qed
qed

lemma run_epochs_unpack_none:
  assumes "max_test_steps cfg = Inr (Some c)" and "c \<le> 0" and "1 \<le> NUM_EPOCHS cfg"
    and "0 < TRAIN_BATCH_SIZE cfg" and "train L w (tdl 0) None = Inr (v, k, w1)"
  shows "run_epochs cfg L tdl sdl w = Inl TypeError"
proof -
  from assms(4) obtain rem where rem: "remainder_train_steps cfg = Inr rem"
    by (simp add: remainder_train_steps_def py_div_def)
  from assms(3) have "1 \<le> \<lfloor>NUM_EPOCHS cfg\<rfloor>" by (simp add: le_floor_iff)
  then have "0 < nat (whole_epochs cfg)"
    using nat_py_int [of "NUM_EPOCHS cfg"] by (simp add: whole_epochs_def)
  then have range: "[0..<nat (whole_epochs cfg)] = 0 # [1..<nat (whole_epochs cfg)]"
    by (simp add: upt_conv_Cons)
  from train_and_test_zero_cap(2) [OF assms(2) assms(5)]
  have "train_and_test L (tdl 0) sdl None (Some c) 0 w = Inl TypeError" .
  then show ?thesis
    using rem assms(1) by (simp add: run_epochs_def range)
qed

text \<open>
  Claim C9. When the step cap is zero or negative, \<open>train\<close> and \<open>test\<close> return \<open>None\<close>
  instead of a mean loss or a pair of mean loss and accuracy. Consequently the epoch
  driver fails whenever the computed evaluation cap is zero or negative (an evaluation
  fraction of 0 computes the cap 0) and at least one pass is due: unpacking the result of
  \<open>test\<close> as a pair raises \<open>TypeError\<close> as soon as the first training pass has returned.
\<close>

theorem zero_cap_returns_none:
  "(c \<le> 0 \<longrightarrow>
      train L w dl (Some c) = Inr (None, 0, w\<lparr>calls := calls w @ [TrainCall (Some c)]\<rparr>)
      \<and> test L w dl (Some c) = Inr (None, 0, w\<lparr>calls := calls w @ [TestCall (Some c)]\<rparr>))
   \<and> (FRACTION_TEST cfg = 0 \<and> 0 < TEST_BATCH_SIZE cfg \<longrightarrow> max_test_steps cfg = Inr (Some 0))
   \<and> (max_test_steps cfg = Inr (Some c) \<and> c \<le> 0 \<and> 0 < NUM_EPOCHS cfg \<longrightarrow>
        (\<exists>e. run_epochs cfg L train_dataloader test_dataloader w = Inl e))
   \<and> (max_test_steps cfg = Inr (Some c) \<and> c \<le> 0 \<and> 1 \<le> NUM_EPOCHS cfg
        \<and> 0 < TRAIN_BATCH_SIZE cfg
        \<and> (\<exists>v k w1. train L w (train_dataloader 0) None = Inr (v, k, w1)) \<longrightarrow>
        run_epochs cfg L train_dataloader test_dataloader w = Inl TypeError)"
proof -
  have 1: "c \<le> 0 \<longrightarrow>
      train L w dl (Some c) = Inr (None, 0, w\<lparr>calls := calls w @ [TrainCall (Some c)]\<rparr>)
      \<and> test L w dl (Some c) = Inr (None, 0, w\<lparr>calls := calls w @ [TestCall (Some c)]\<rparr>)"
    by (simp add: train_no_steps test_no_steps)
  have 2: "FRACTION_TEST cfg = 0 \<and> 0 < TEST_BATCH_SIZE cfg \<longrightarrow> max_test_steps cfg = Inr (Some 0)"
    by (simp add: max_test_steps_def py_div_def)
  have 3: "max_test_steps cfg = Inr (Some c) \<and> c \<le> 0 \<and> 0 < NUM_EPOCHS cfg \<longrightarrow>
        (\<exists>e. run_epochs cfg L train_dataloader test_dataloader w = Inl e)"
    using run_epochs_zero_cap by blast
  have 4: "max_test_steps cfg = Inr (Some c) \<and> c \<le> 0 \<and> 1 \<le> NUM_EPOCHS cfg
        \<and> 0 < TRAIN_BATCH_SIZE cfg
        \<and> (\<exists>v k w1. train L w (train_dataloader 0) None = Inr (v, k, w1)) \<longrightarrow>
        run_epochs cfg L train_dataloader test_dataloader w = Inl TypeError"
    using run_epochs_unpack_none by blast
  from 1 2 3 4 show ?thesis by blast
qed

lemma demo_first_pass:
  "train demo_learner demo_world (demo_train_dataloader 0) None
     = Inr (Some 1, 1,
            \<lparr>params = 1, training = True, optimizer = 1, stdout = [],
              calls = [TrainCall None]\<rparr>)"
  by (simp add: train_def past_cap_def py_div_def model_def criterion_def optimizer_step_def
      demo_learner_def demo_world_def demo_miss_def demo_train_dataloader_def)

text \<open>
  The theorem at an evaluation fraction of 0: the computed cap is 0, \<open>test\<close> returns
  \<open>None\<close>, and the run of one and a half epochs ends in a \<open>TypeError\<close> after its first
  training pass.
\<close>

theorem zero_cap_returns_none_witness:
  "(0 :: real) \<le> 0
   \<and> FRACTION_TEST (demo_config\<lparr>FRACTION_TEST := 0\<rparr>) = 0
   \<and> 0 < TEST_BATCH_SIZE (demo_config\<lparr>FRACTION_TEST := 0\<rparr>)
   \<and> 1 \<le> NUM_EPOCHS (demo_config\<lparr>FRACTION_TEST := 0\<rparr>)
   \<and> 0 < TRAIN_BATCH_SIZE (demo_config\<lparr>FRACTION_TEST := 0\<rparr>)
   \<and> max_test_steps (demo_config\<lparr>FRACTION_TEST := 0\<rparr>) = Inr (Some 0)
   \<and> test demo_learner demo_world demo_test_dataloader (Some 0)
       = Inr (None, 0, demo_world\<lparr>calls := calls demo_world @ [TestCall (Some 0)]\<rparr>)
   \<and> run_epochs (demo_config\<lparr>FRACTION_TEST := 0\<rparr>) demo_learner demo_train_dataloader
        demo_test_dataloader demo_world = Inl TypeError"
proof -
  let ?cfg = "demo_config\<lparr>FRACTION_TEST := 0\<rparr>"
  note inst = zero_cap_returns_none [of 0 demo_learner demo_world demo_test_dataloader ?cfg
      demo_train_dataloader demo_test_dataloader]
  have h: "FRACTION_TEST ?cfg = 0" "0 < TEST_BATCH_SIZE ?cfg" "1 \<le> NUM_EPOCHS ?cfg"
    "0 < TRAIN_BATCH_SIZE ?cfg"
    by (simp_all add: demo_config_def)
  from inst h have m: "max_test_steps ?cfg = Inr (Some 0)" by blast
  from inst have t: "test demo_learner demo_world demo_test_dataloader (Some 0)
       = Inr (None, 0, demo_world\<lparr>calls := calls demo_world @ [TestCall (Some 0)]\<rparr>)"
    by simp
  from inst m h demo_first_pass
  have "run_epochs ?cfg demo_learner demo_train_dataloader demo_test_dataloader demo_world
      = Inl TypeError"
    by blast
  with h m t show ?thesis by simp
qed

subsection \<open>Evaluation leaves the parameters alone\<close>

lemma argmax_from_bounds:
  assumes "best < i"
  shows "argmax_from best v i xs < i + length xs"
  using assms
proof (induction xs arbitrary: best v i)
  case Nil
  then show ?case by simp
next
  case (Cons x xs)
  have "argmax_from i x (Suc i) xs < Suc i + length xs"
    by (rule Cons.IH) simp
  moreover have "argmax_from best v (Suc i) xs < Suc i + length xs"
    by (rule Cons.IH) (use Cons.prems in simp)
  ultimately show ?case by simp
qed

lemma argmax_from_max:
  assumes "best < i" and "ys ! best = v" and "length ys = i" and "\<forall>j < i. ys ! j \<le> v"
    and "\<forall>j < best. ys ! j < v"
  shows "\<forall>j < length (ys @ xs). (ys @ xs) ! j \<le> (ys @ xs) ! argmax_from best v i xs"
    and "\<forall>j < argmax_from best v i xs. (ys @ xs) ! j < (ys @ xs) ! argmax_from best v i xs"
  using assms
proof (induction xs arbitrary: best v i ys)
  case Nil
  {
    case 1
    then show ?case by simp
  next
    case 2
    then show ?case by simp
  }
next
  case (Cons x xs)
  {
    case 1
    show ?case
    proof (cases "v < x")
      case True
      have "\<forall>j<length ((ys @ [x]) @ xs). ((ys @ [x]) @ xs) ! j
          \<le> ((ys @ [x]) @ xs) ! argmax_from i x (Suc i) xs"
      proof (rule Cons.IH(1))
        show "i < Suc i" by simp
        show "(ys @ [x]) ! i = x" using 1(3) by (simp add: nth_append)
        show "length (ys @ [x]) = Suc i" using 1(3) by simp
        show "\<forall>j<Suc i. (ys @ [x]) ! j \<le> x"
          using 1(3,4) True by (auto simp: nth_append less_Suc_eq)
        show "\<forall>j<i. (ys @ [x]) ! j < x"
          using 1(3,4) True by (auto simp: nth_append)
      qed
      with True show ?thesis by simp
    next
      case False
      have "\<forall>j<length ((ys @ [x]) @ xs). ((ys @ [x]) @ xs) ! j
          \<le> ((ys @ [x]) @ xs) ! argmax_from best v (Suc i) xs"
      proof (rule Cons.IH(1))
        show "best < Suc i" using 1(1) by simp
        show "(ys @ [x]) ! best = v" using 1(1,2,3) by (simp add: nth_append)
        show "length (ys @ [x]) = Suc i" using 1(3) by simp
        show "\<forall>j<Suc i. (ys @ [x]) ! j \<le> v"
          using 1(3,4) False by (auto simp: nth_append less_Suc_eq)
        show "\<forall>j<best. (ys @ [x]) ! j < v"
          using 1(1,3,5) by (auto simp: nth_append)
      qed
      with False show ?thesis by simp
    qed
  next
    case 2
    show ?case
    proof (cases "v < x")
      case True
      have "\<forall>j<argmax_from i x (Suc i) xs. ((ys @ [x]) @ xs) ! j
          < ((ys @ [x]) @ xs) ! argmax_from i x (Suc i) xs"
      proof (rule Cons.IH(2))
        show "i < Suc i" by simp
        show "(ys @ [x]) ! i = x" using 2(3) by (simp add: nth_append)
        show "length (ys @ [x]) = Suc i" using 2(3) by simp
        show "\<forall>j<Suc i. (ys @ [x]) ! j \<le> x"
          using 2(3,4) True by (auto simp: nth_append less_Suc_eq)
        show "\<forall>j<i. (ys @ [x]) ! j < x"
          using 2(3,4) True by (auto simp: nth_append)
      qed
      with True show ?thesis by simp
    next
      case False
      have "\<forall>j<argmax_from best v (Suc i) xs. ((ys @ [x]) @ xs) ! j
          < ((ys @ [x]) @ xs) ! argmax_from best v (Suc i) xs"
      proof (rule Cons.IH(2))
        show "best < Suc i" using 2(1) by simp
        show "(ys @ [x]) ! best = v" using 2(1,2,3) by (simp add: nth_append)
        show "length (ys @ [x]) = Suc i" using 2(3) by simp
        show "\<forall>j<Suc i. (ys @ [x]) ! j \<le> v"
          using 2(3,4) False by (auto simp: nth_append less_Suc_eq)
        show "\<forall>j<best. (ys @ [x]) ! j < v"
          using 2(1,3,5) by (auto simp: nth_append)
      qed
      with False show ?thesis by simp
    qed
  }
qed

lemma argmax_first_largest:
  assumes "out \<noteq> []"
  shows "argmax out < length out
      \<and> (\<forall>j < length out. out ! j \<le> out ! argmax out)
      \<and> (\<forall>j < argmax out. out ! j < out ! argmax out)"
proof -
  from assms obtain x xs where out: "out = x # xs" by (cases out) auto
  have a: "argmax out = argmax_from 0 x 1 xs" by (simp add: argmax_def out)
  have 1: "argmax_from 0 x 1 xs < 1 + length xs"
    by (rule argmax_from_bounds) simp
  have 2: "\<forall>j < length ([x] @ xs). ([x] @ xs) ! j \<le> ([x] @ xs) ! argmax_from 0 x 1 xs"
    by (rule argmax_from_max(1)) simp_all
  have 3: "\<forall>j < argmax_from 0 x 1 xs. ([x] @ xs) ! j < ([x] @ xs) ! argmax_from 0 x 1 xs"
    by (rule argmax_from_max(2)) simp_all
  have eq: "[x] @ xs = out" and len: "1 + length xs = length out" by (simp_all add: out)
  from 1 2 3 show ?thesis unfolding a eq len by blast
qed

lemma model_scores:
  assumes "training w = False"
  shows "model L w b = map (scores L (params w)) b"
  using assms by (simp add: model_def scores_def)

lemma zip_map_same: "zip (map f b) (map g b) = map (\<lambda>x. (f x, g x)) b"
  by (induction b) simp_all

lemma batch_loss_sum:
  assumes "b \<noteq> []"
  shows "real (length b) * criterion L (map f b) (map targets b)
      = (\<Sum>x\<leftarrow>b. sample_loss L (f x) (targets x))"
proof -
  from assms have "real (length b) \<noteq> 0" by simp
  then show ?thesis
    by (simp add: criterion_def zip_map_same comp_def)
qed

lemma correct_count:
  "correct (map f b) (map targets b) = length (filter (\<lambda>x. argmax (f x) = targets x) b)"
proof -
  have "filter (\<lambda>(out, t). argmax out = t) (map (\<lambda>x. (f x, targets x)) b)
      = map (\<lambda>x. (f x, targets x)) (filter (\<lambda>x. argmax (f x) = targets x) b)"
    by (simp add: filter_map comp_def)
  then show ?thesis by (simp add: correct_def zip_map_same)
qed

lemma sum_over_batches:
  fixes g :: "'a \<Rightarrow> real"
  shows "(\<Sum>b\<leftarrow>bs. \<Sum>x\<leftarrow>b. g x) = (\<Sum>x\<leftarrow>concat bs. g x)"
  by (induction bs) simp_all

lemma count_over_batches:
  "(\<Sum>b\<leftarrow>bs. length (filter P b)) = length (filter P (concat bs))"
  by (induction bs) simp_all

lemma test_result:
  assumes ne: "\<forall>b \<in> set bs. b \<noteq> []"
    and res: "test L w \<lparr>yielded = bs, raised = ends\<rparr> cap = Inr (Some (mean_loss, accuracy), k, w')"
  shows "mean_loss = (\<Sum>x\<leftarrow>concat (take k bs). sample_loss L (scores L (params w) x) (targets x))
            / real (length (concat (take k bs)))"
    and "accuracy = real (length (filter (\<lambda>x. argmax (scores L (params w) x) = targets x)
                                   (concat (take k bs))))
            / real (length (concat (take k bs)))"
proof -
  let ?w = "w\<lparr>calls := calls w @ [TestCall cap], training := False\<rparr>"
  let ?m = "budget cap 1 (length bs)"
  have nc: "\<not> (case cap of None \<Rightarrow> False | Some c \<Rightarrow> c \<le> 0)"
  proof
    assume "case cap of None \<Rightarrow> False | Some c \<Rightarrow> c \<le> 0"
    then obtain c where "cap = Some c" "c \<le> 0" by (cases cap) auto
    with res show False by (simp add: test_no_steps)
  qed
  with res have unfolded:
    "(case test_loop L cap 1 bs ends 0 0 0 0 ?w of
        Inl e \<Rightarrow> Inl e
      | Inr (total_loss, total_correct, total_samples, steps, w') \<Rightarrow>
          (case py_div Final total_loss (real total_samples) of
             Inl e \<Rightarrow> Inl e
           | Inr mean_loss \<Rightarrow>
               (case py_div Final (real total_correct) (real total_samples) of
                  Inl e \<Rightarrow> Inl e
                | Inr accuracy \<Rightarrow> Inr (Some (mean_loss, accuracy), steps, w'))))
     = Inr (Some (mean_loss, accuracy), k, w')"
    by (simp add: test_def)
  then obtain r where r: "test_loop L cap 1 bs ends 0 0 0 0 ?w = Inr r"
    by (cases "test_loop L cap 1 bs ends 0 0 0 0 ?w") simp_all
  obtain lo c n k0 w0 where r': "r = (lo, c, n, k0, w0)" by (cases r)
  from unfolded have after:
    "(case py_div Final lo (real n) of
        Inl e \<Rightarrow> Inl e
      | Inr mean_loss \<Rightarrow>
          (case py_div Final (real c) (real n) of
             Inl e \<Rightarrow> Inl e
           | Inr accuracy \<Rightarrow> Inr (Some (mean_loss, accuracy), k0, w0)))
     = Inr (Some (mean_loss, accuracy), k, w')"
    unfolding r r' by simp
  have nz: "real n \<noteq> 0"
  proof
    assume "real n = 0"
    with after show False by (simp add: py_div_def)
  qed
  with after have vals: "mean_loss = lo / real n" "accuracy = real c / real n"
    and same: "k0 = k" "w0 = w'"
    by (simp_all add: py_div_def)
  from r r' same have loop: "test_loop L cap 1 bs ends 0 0 0 0 ?w = Inr (lo, c, n, k, w')"
    by simp
  have e: "ends = None \<or> ?m < length bs"
  proof (rule ccontr)
    assume "\<not> (ends = None \<or> ?m < length bs)"
    then obtain err where err: "ends = Some err" and "\<not> ?m < length bs" by auto
    with budget_le [of cap 1 "length bs"] have "?m = length bs" by simp
    from test_loop_raises [OF ne _ this, where e = err and L = L and lo = 0 and c = 0
        and n = 0 and k = 0 and w = ?w] loop err
    show False by simp
  qed
  have tr: "training ?w = False" and pa: "params ?w = params w" by simp_all
  from test_loop_returns [OF ne _ e, of L 0 0 0 0 ?w] loop
  have lo: "lo = (\<Sum>b\<leftarrow>take ?m bs. real (length b) * criterion L (model L ?w b) (map targets b))"
    and c: "c = (\<Sum>b\<leftarrow>take ?m bs. correct (model L ?w b) (map targets b))"
    and n: "n = length (concat (take ?m bs))"
    and k: "k = ?m"
    by auto
  have m1: "model L ?w = map (scores L (params w))"
    using model_scores [OF tr, of L] by (simp add: fun_eq_iff)
  have step: "real (length b) * criterion L (map (scores L (params w)) b) (map targets b)
      = (\<Sum>x\<leftarrow>b. sample_loss L (scores L (params w) x) (targets x))"
    if "b \<in> set (take ?m bs)" for b
  proof (rule batch_loss_sum)
    from that have "b \<in> set bs" by (rule in_set_takeD)
    with ne show "b \<noteq> []" by blast
  qed
  have "map (\<lambda>b. real (length b) * criterion L (map (scores L (params w)) b) (map targets b))
          (take ?m bs)
      = map (\<lambda>b. \<Sum>x\<leftarrow>b. sample_loss L (scores L (params w) x) (targets x)) (take ?m bs)"
    by (rule map_cong [OF refl]) (rule step)
  then have "lo = (\<Sum>b\<leftarrow>take ?m bs.
      \<Sum>x\<leftarrow>b. sample_loss L (scores L (params w) x) (targets x))"
    by (simp only: lo m1)
  then have lo': "lo = (\<Sum>x\<leftarrow>concat (take ?m bs).
      sample_loss L (scores L (params w) x) (targets x))"
    by (simp only: sum_over_batches)
  have "c = (\<Sum>b\<leftarrow>take ?m bs.
      length (filter (\<lambda>x. argmax (scores L (params w) x) = targets x) b))"
    by (simp only: c m1 correct_count)
  then have c': "c = length (filter (\<lambda>x. argmax (scores L (params w) x) = targets x)
      (concat (take ?m bs)))"
    by (simp only: count_over_batches)
  show "mean_loss = (\<Sum>x\<leftarrow>concat (take k bs). sample_loss L (scores L (params w) x) (targets x))
            / real (length (concat (take k bs)))"
    by (simp only: vals(1) lo' n k)
  show "accuracy = real (length (filter (\<lambda>x. argmax (scores L (params w) x) = targets x)
                                   (concat (take k bs))))
            / real (length (concat (take k bs)))"
    by (simp only: vals(2) c' n k)
qed

text \<open>
  Claim C7. For every state of the model and every loader, a pass of \<open>test\<close> leaves the
  parameters of the model (and the state of the optimizer) unchanged. Over a loader of
  non-empty batches the pair it returns is the mean of the per-element loss and the top-1
  accuracy over the elements of the batches it has processed: the accuracy is the fraction
  of elements whose argmax class, under the unchanged parameters in evaluation mode, equals
  the integer target, where the argmax of a row of scores is the first index of its largest
  score.
\<close>

theorem test_keeps_parameters:
  "(\<forall>v k w'. test L w dataloader cap = Inr (v, k, w')
       \<longrightarrow> params w' = params w \<and> optimizer w' = optimizer w)
   \<and> ((\<forall>b \<in> set bs. b \<noteq> []) \<longrightarrow>
        (\<forall>mean_loss accuracy k w'.
           test L w \<lparr>yielded = bs, raised = ends\<rparr> cap = Inr (Some (mean_loss, accuracy), k, w')
           \<longrightarrow> mean_loss
                 = (\<Sum>x\<leftarrow>concat (take k bs). sample_loss L (scores L (params w) x) (targets x))
                     / real (length (concat (take k bs)))
               \<and> accuracy
                 = real (length (filter (\<lambda>x. argmax (scores L (params w) x) = targets x)
                                   (concat (take k bs))))
                     / real (length (concat (take k bs)))))
   \<and> (out \<noteq> [] \<longrightarrow>
        argmax out < length out
        \<and> (\<forall>j < length out. out ! j \<le> out ! argmax out)
        \<and> (\<forall>j < argmax out. out ! j < out ! argmax out))"
proof -
  have 1: "\<forall>v k w'. test L w dataloader cap = Inr (v, k, w')
       \<longrightarrow> params w' = params w \<and> optimizer w' = optimizer w"
  proof (intro allI impI)
    fix v k w'
    assume "test L w dataloader cap = Inr (v, k, w')"
    from test_frame [OF this] show "params w' = params w \<and> optimizer w' = optimizer w"
      by simp
  qed
  have 2: "(\<forall>b \<in> set bs. b \<noteq> []) \<longrightarrow>
        (\<forall>mean_loss accuracy k w'.
           test L w \<lparr>yielded = bs, raised = ends\<rparr> cap = Inr (Some (mean_loss, accuracy), k, w')
           \<longrightarrow> mean_loss
                 = (\<Sum>x\<leftarrow>concat (take k bs). sample_loss L (scores L (params w) x) (targets x))
                     / real (length (concat (take k bs)))
               \<and> accuracy
                 = real (length (filter (\<lambda>x. argmax (scores L (params w) x) = targets x)
                                   (concat (take k bs))))
                     / real (length (concat (take k bs))))"
  proof (intro impI allI conjI)
    fix mean_loss accuracy k w'
    assume ne: "\<forall>b \<in> set bs. b \<noteq> []"
      and res: "test L w \<lparr>yielded = bs, raised = ends\<rparr> cap
          = Inr (Some (mean_loss, accuracy), k, w')"
    show "mean_loss
        = (\<Sum>x\<leftarrow>concat (take k bs). sample_loss L (scores L (params w) x) (targets x))
            / real (length (concat (take k bs)))"
      by (rule test_result(1) [OF ne res])
    show "accuracy
        = real (length (filter (\<lambda>x. argmax (scores L (params w) x) = targets x)
                          (concat (take k bs))))
            / real (length (concat (take k bs)))"
      by (rule test_result(2) [OF ne res])
  qed
  have 3: "out \<noteq> [] \<longrightarrow>
        argmax out < length out
        \<and> (\<forall>j < length out. out ! j \<le> out ! argmax out)
        \<and> (\<forall>j < argmax out. out ! j < out ! argmax out)"
    by (rule impI) (rule argmax_first_largest)
  from 1 2 3 show ?thesis by (intro conjI)
qed

lemma demo_test_pass:
  "test demo_learner demo_world
     \<lparr>yielded = [[demo_miss, demo_hit], [demo_miss]], raised = None\<rparr> None
   = Inr (Some (1, 1 / 3), 2,
          \<lparr>params = 0, training = False, optimizer = 0, stdout = [],
            calls = [TestCall None]\<rparr>)"
  by (simp add: test_def past_cap_def py_div_def model_def criterion_def correct_def argmax_def
      demo_learner_def demo_world_def demo_miss_def demo_hit_def)

text \<open>
  The theorem at two batches holding three elements, of which the model gets one right:
  the parameters stay as they were and the accuracy is one third.
\<close>

theorem test_keeps_parameters_witness:
  "[demo_miss, demo_hit] \<noteq> [] \<and> [demo_miss] \<noteq> []
   \<and> [1, 3, 3 :: real] \<noteq> []
   \<and> (\<exists>w'. test demo_learner demo_world
         \<lparr>yielded = [[demo_miss, demo_hit], [demo_miss]], raised = None\<rparr> None
         = Inr (Some (1, 1 / 3), 2, w')
       \<and> params w' = params demo_world
       \<and> (1 / 3 :: real)
           = real (length (filter (\<lambda>x. argmax (scores demo_learner (params demo_world) x)
                                          = targets x)
                             (concat (take 2 [[demo_miss, demo_hit], [demo_miss]]))))
             / real (length (concat (take 2 [[demo_miss, demo_hit], [demo_miss]]))))
   \<and> argmax [1, 3, 3] < length [1, 3, 3 :: real]"
proof -
  let ?bs = "[[demo_miss, demo_hit], [demo_miss]]"
  let ?w' = "\<lparr>params = 0 :: int, training = False, optimizer = 0 :: nat, stdout = [],
      calls = [TestCall None]\<rparr>"
  have ne: "\<forall>b \<in> set ?bs. b \<noteq> []" by simp
  have out: "[1, 3, 3 :: real] \<noteq> []" by simp
  note inst = test_keeps_parameters [of demo_learner demo_world
      "\<lparr>yielded = ?bs, raised = None\<rparr>" None ?bs None "[1, 3, 3 :: real]"]
  from inst have frame: "\<forall>v k w'. test demo_learner demo_world
      \<lparr>yielded = ?bs, raised = None\<rparr> None = Inr (v, k, w')
       \<longrightarrow> params w' = params demo_world \<and> optimizer w' = optimizer demo_world"
    by (rule conjunct1)
  from frame demo_test_pass have a: "params ?w' = params demo_world"
    by blast
  from inst have "(\<forall>b \<in> set ?bs. b \<noteq> []) \<longrightarrow>
        (\<forall>mean_loss accuracy k w'.
           test demo_learner demo_world \<lparr>yielded = ?bs, raised = None\<rparr> None
             = Inr (Some (mean_loss, accuracy), k, w')
           \<longrightarrow> mean_loss
                 = (\<Sum>x\<leftarrow>concat (take k ?bs).
                      sample_loss demo_learner (scores demo_learner (params demo_world) x)
                        (targets x))
                     / real (length (concat (take k ?bs)))
               \<and> accuracy
                 = real (length (filter (\<lambda>x. argmax (scores demo_learner (params demo_world) x)
                                               = targets x)
                                   (concat (take k ?bs))))
                     / real (length (concat (take k ?bs))))"
    by (rule conjunct1 [OF conjunct2])
  from mp [OF this ne] demo_test_pass have b: "(1 / 3 :: real)
           = real (length (filter (\<lambda>x. argmax (scores demo_learner (params demo_world) x)
                                          = targets x)
                             (concat (take 2 ?bs))))
             / real (length (concat (take 2 ?bs)))"
    by blast
  from inst have "[1, 3, 3 :: real] \<noteq> [] \<longrightarrow>
        argmax [1, 3, 3] < length [1, 3, 3 :: real]
        \<and> (\<forall>j < length [1, 3, 3 :: real]. [1, 3, 3 :: real] ! j \<le> [1, 3, 3] ! argmax [1, 3, 3])
        \<and> (\<forall>j < argmax [1, 3, 3 :: real]. [1, 3, 3 :: real] ! j < [1, 3, 3] ! argmax [1, 3, 3])"
    by (rule conjunct2 [OF conjunct2])
  from mp [OF this out] have c: "argmax [1, 3, 3] < length [1, 3, 3 :: real]"
    by (rule conjunct1)
  from demo_test_pass a b have "\<exists>w'. test demo_learner demo_world
         \<lparr>yielded = ?bs, raised = None\<rparr> None
         = Inr (Some (1, 1 / 3), 2, w')
       \<and> params w' = params demo_world
       \<and> (1 / 3 :: real)
           = real (length (filter (\<lambda>x. argmax (scores demo_learner (params demo_world) x)
                                          = targets x)
                             (concat (take 2 ?bs))))
             / real (length (concat (take 2 ?bs)))"
    by (intro exI [of _ ?w'] conjI)
  with out c show ?thesis by simp
qed

subsection \<open>A failing record ends the pass\<close>

lemma map_items_prefix:
  assumes "\<forall>r \<in> set before. \<exists>s. f r = Inr s" and "f x = Inl e"
  shows "map_items f (before @ x # behind)
      = \<lparr>yielded = map (projr \<circ> f) before, raised = Some e\<rparr>"
  using assms(1)
proof (induction before)
  case Nil
  then show ?case using assms(2) by simp
next
  case (Cons r before)
  from Cons.prems obtain s where s: "f r = Inr s" by auto
  from Cons.prems have "\<forall>r \<in> set before. \<exists>s. f r = Inr s" by simp
  from Cons.IH [OF this] show ?case by (simp add: s)
qed

lemma iterate_test_pipeline:
  "iterate (get_test_dataset (as_datapipe rows) f) (worker_ctx ps 0 0) = map_items f rows"
proof -
  let ?ctx = "worker_ctx ps 0 0"
  have r: "raised (iterate (sharding_filter (as_datapipe rows)) ?ctx) = None"
    by (simp add: sharding_filter_def as_datapipe_def)
  have y: "yielded (iterate (sharding_filter (as_datapipe rows)) ?ctx) = rows"
    by (simp add: sharding_filter_def as_datapipe_def worker_ctx_def consumers_def
        shard_items_single)
  show ?thesis
    unfolding get_test_dataset_def Let_def iterate_map_dp_as_datapipe [OF r] y ..
qed

lemma iterate_train_pipeline:
  "iterate (get_train_dataset (as_datapipe rows) f) (worker_ctx ps 0 0)
     = map_items f (shuffle_items 10000 ps rows)"
proof -
  let ?ctx = "worker_ctx ps 0 0"
  have r: "raised (iterate (sharding_filter (shuffle 10000 (as_datapipe rows))) ?ctx) = None"
    by (simp add: sharding_filter_def shuffle_def as_datapipe_def)
  have y: "yielded (iterate (sharding_filter (shuffle 10000 (as_datapipe rows))) ?ctx)
      = shuffle_items 10000 ps rows"
    by (simp add: sharding_filter_def shuffle_def as_datapipe_def worker_ctx_def consumers_def
        shard_items_single)
  show ?thesis
    unfolding get_train_dataset_def Let_def iterate_map_dp_as_datapipe [OF r] y ..
qed

lemma mset_shuffle_items: "mset (shuffle_items buffer_size ps xs) = mset xs"
proof (induction ps arbitrary: xs)
  case Nil
  then show ?case by simp
next
  case (Cons p ps)
  show ?case
  proof (cases "xs = [] \<or> buffer_size = 0")
    case True
    then show ?thesis by auto
  next
    case False
    let ?i = "p mod min buffer_size (length xs)"
    from False have "0 < min buffer_size (length xs)" by simp
    then have "?i < min buffer_size (length xs)" by (rule mod_less_divisor)
    then have i: "?i < length xs" by simp
    have "mset (xs ! ?i # shuffle_items buffer_size ps (take ?i xs @ drop (Suc ?i) xs))
        = mset (take ?i xs @ xs ! ?i # drop (Suc ?i) xs)"
      by (simp add: Cons.IH)
    also have "\<dots> = mset xs"
      using id_take_nth_drop [OF i] by simp
    finally show ?thesis using False by (simp add: Let_def)
  qed
qed

lemma first_failure:
  assumes "x \<in> set ys" and "f x = Inl e"
  shows "\<exists>before y behind e'. ys = before @ y # behind
      \<and> (\<forall>r \<in> set before. \<exists>s. f r = Inr s) \<and> f y = Inl e'"
proof -
  from assms(2) have "isl (f x)" by simp
  with assms(1) have "\<exists>x \<in> set ys. isl (f x)" by blast
  from split_list_first_prop [OF this] obtain before y behind where
    ys: "ys = before @ y # behind" and y: "isl (f y)" and b: "\<forall>r \<in> set before. \<not> isl (f r)"
    by blast
  from y obtain e' where "f y = Inl e'" by (cases "f y") auto
  moreover from b have "\<forall>r \<in> set before. \<exists>s. f r = Inr s"
    by (metis isl_def sum.exhaust_sel)
  ultimately show ?thesis using ys by blast
qed

lemma batches_nonempty:
  assumes "0 < n"
  shows "\<forall>b \<in> set (batches n xs). b \<noteq> []"
proof
  fix b assume "b \<in> set (batches n xs)"
  then obtain k where k: "k < (length xs + n - 1) div n" and b: "b = take n (drop (k * n) xs)"
    by (auto simp: batches_def)
  from k have "Suc k \<le> (length xs + n - 1) div n" by simp
  then have "Suc k * n \<le> length xs + n - 1"
    using assms by (simp add: less_eq_div_iff_mult_less_eq)
  then have "k * n < length xs" using assms by simp
  with assms b show "b \<noteq> []" by simp
qed

lemma DataLoader_nonempty:
  assumes "0 < n"
  shows "\<forall>b \<in> set (yielded (DataLoader dataset n ps)). b \<noteq> []"
proof
  fix b assume b: "b \<in> set (yielded (DataLoader dataset n ps))"
  let ?ys = "yielded (iterate dataset (worker_ctx ps 0 0))"
  have "b \<in> set (batches n ?ys)"
  proof (cases "raised (iterate dataset (worker_ctx ps 0 0))")
    case None
    with b show ?thesis by (simp add: DataLoader_def Let_def)
  next
    case (Some e)
    with b have "b \<in> set (take (length ?ys div n) (batches n ?ys))"
      by (simp add: DataLoader_def Let_def)
    then show ?thesis by (rule in_set_takeD)
  qed
  with batches_nonempty [OF assms] show "b \<noteq> []" by blast
qed

lemma DataLoader_raised:
  "raised (DataLoader dataset n ps)
     = raised (iterate dataset (worker_ctx ps 0 0))"
  by (simp add: DataLoader_def Let_def split: option.splits)

lemma budget_uncapped: "budget None i n = n"
  by (simp add: budget_def)

lemma test_raises:
  assumes "\<forall>b \<in> set (yielded dl). b \<noteq> []" and "raised dl = Some e"
  shows "test L w dl None = Inl e"
  using test_loop_raises [OF assms(1) _ budget_uncapped, where i = 1 and e = e and L = L
      and lo = 0 and c = 0 and n = 0 and k = 0] assms(2)
  by (simp add: test_def)

lemma train_raises:
  assumes "\<forall>b \<in> set (yielded dl). b \<noteq> []" and "raised dl = Some e"
  shows "train L w dl None = Inl e"
  using train_loop_raises [OF assms(1) _ budget_uncapped, where i = 1 and e = e and L = L
      and lo = 0 and n = 0 and k = 0] assms(2)
  by (simp add: train_def)

text \<open>
  Claim C8. When \<open>unpack_row\<close> raises on a record, the pass over the pipeline yields the
  results of the records before it and then raises that exception: nothing is yielded for
  the failing record or for any record behind it, so there is no recovery, no skipping and
  no retry. The exception reaches the consumer: an uncapped pass of \<open>test\<close> over the
  loader of the evaluation pipeline ends with it, and an uncapped pass of \<open>train\<close> over
  the loader of the (shuffled) training pipeline ends with the exception of some failing
  record.
\<close>

theorem unpack_failure_aborts:
  assumes "rows = before @ x # behind"
    and "\<forall>r \<in> set before. \<exists>s. unpack_row cfg tokenizer c2i r = Inr s"
    and "unpack_row cfg tokenizer c2i x = Inl e"
    and "0 < batch_size"
  shows "iterate (get_test_dataset (as_datapipe rows) (unpack_row cfg tokenizer c2i))
           (worker_ctx ps NUM_TEST_WORKERS 0)
         = \<lparr>yielded = map (projr \<circ> unpack_row cfg tokenizer c2i) before, raised = Some e\<rparr>
     \<and> test L w (DataLoader (get_test_dataset (as_datapipe rows) (unpack_row cfg tokenizer c2i))
                   batch_size ps) None
         = Inl e
     \<and> (\<exists>e'. (\<exists>r \<in> set rows. unpack_row cfg tokenizer c2i r = Inl e')
           \<and> train L w (DataLoader (get_train_dataset (as_datapipe rows)
                                       (unpack_row cfg tokenizer c2i))
                           batch_size ps) None
               = Inl e')"
proof -
  let ?f = "unpack_row cfg tokenizer c2i"
  let ?test = "get_test_dataset (as_datapipe rows) ?f"
  let ?train = "get_train_dataset (as_datapipe rows) ?f"
  have pass: "iterate ?test (worker_ctx ps NUM_TEST_WORKERS 0)
      = \<lparr>yielded = map (projr \<circ> ?f) before, raised = Some e\<rparr>"
    unfolding NUM_TEST_WORKERS_def iterate_test_pipeline assms(1)
    by (rule map_items_prefix [OF assms(2,3)])
  then have "raised (DataLoader ?test batch_size ps) = Some e"
    by (simp add: DataLoader_raised NUM_TEST_WORKERS_def)
  from test_raises [OF DataLoader_nonempty [OF assms(4)] this]
  have t: "test L w (DataLoader ?test batch_size ps) None = Inl e" .
  let ?ys = "shuffle_items 10000 ps rows"
  have "set ?ys = set rows"
    using mset_shuffle_items [of 10000 ps rows] by (rule mset_eq_setD)
  with assms(1) have "x \<in> set ?ys" by simp
  from first_failure [where f = ?f, OF this assms(3)] obtain b y c e' where
    ys: "?ys = b @ y # c" and ok: "\<forall>r \<in> set b. \<exists>s. ?f r = Inr s" and bad: "?f y = Inl e'"
    by blast
  have "y \<in> set rows" using ys \<open>set ?ys = set rows\<close> by auto
  with bad have some: "\<exists>r \<in> set rows. ?f r = Inl e'" by blast
  have "iterate ?train (worker_ctx ps NUM_TRAIN_WORKERS 0)
      = \<lparr>yielded = map (projr \<circ> ?f) b, raised = Some e'\<rparr>"
    unfolding NUM_TRAIN_WORKERS_def iterate_train_pipeline ys
    by (rule map_items_prefix [OF ok bad])
  then have "raised (DataLoader ?train batch_size ps) = Some e'"
    by (simp add: DataLoader_raised NUM_TRAIN_WORKERS_def)
  from train_raises [OF DataLoader_nonempty [OF assms(4)] this]
  have "train L w (DataLoader ?train batch_size ps) None = Inl e'" .
  with some have tr: "\<exists>e'. (\<exists>r \<in> set rows. ?f r = Inl e')
      \<and> train L w (DataLoader ?train batch_size ps) None = Inl e'"
    by blast
  from pass t tr show ?thesis by (intro conjI)
qed

lemma demo_tokenizer_hello:
  "demo_tokenizer ''hello''
     \<lparr>max_length = 4, padding = ''max_length'', truncation = True, return_tensors = ''np''\<rparr>
   = \<lparr>tok_input_ids = [[101, 7, 102, 0]], tok_attention_mask = [[1, 1, 1, 0]],
       tok_token_type_ids = [[0, 0, 0, 0]]\<rparr>"
  by (simp add: demo_tokenizer_def Let_def numeral_eq_Suc)

lemma demo_unpack:
  "unpack_row demo_config demo_tokenizer demo_classes demo_known
     = Inr \<lparr>input_ids = [101, 7, 102, 0], attention_mask = [1, 1, 1, 0],
            token_type_ids = [0, 0, 0, 0], targets = 0\<rparr>"
  "unpack_row demo_config demo_tokenizer demo_classes demo_unknown = Inl (KeyError ''zz'')"
  by (simp_all add: unpack_row_def reshape_flat_def getitem_def Let_def
      demo_config_def demo_tokenizer_hello demo_classes_def demo_known_def demo_unknown_def)

text \<open>
  The theorem at three records of which the second has an unknown language: the pass
  yields the first record's result and raises the \<open>KeyError\<close>, and \<open>test\<close> ends with it.
\<close>

theorem unpack_failure_aborts_witness:
  "[demo_known, demo_unknown, demo_known] = [demo_known] @ demo_unknown # [demo_known]
   \<and> (\<exists>s. unpack_row demo_config demo_tokenizer demo_classes demo_known = Inr s)
   \<and> unpack_row demo_config demo_tokenizer demo_classes demo_unknown = Inl (KeyError ''zz'')
   \<and> (0 :: nat) < 2
   \<and> iterate (get_test_dataset (as_datapipe [demo_known, demo_unknown, demo_known])
                (unpack_row demo_config demo_tokenizer demo_classes))
        (worker_ctx [] NUM_TEST_WORKERS 0)
      = \<lparr>yielded = [\<lparr>input_ids = [101, 7, 102, 0], attention_mask = [1, 1, 1, 0],
                      token_type_ids = [0, 0, 0, 0], targets = 0\<rparr>],
         raised = Some (KeyError ''zz'')\<rparr>
   \<and> test demo_learner demo_world
        (DataLoader (get_test_dataset (as_datapipe [demo_known, demo_unknown, demo_known])
                       (unpack_row demo_config demo_tokenizer demo_classes))
           2 []) None
      = Inl (KeyError ''zz'')"
proof -
  have h1: "[demo_known, demo_unknown, demo_known] = [demo_known] @ demo_unknown # [demo_known]"
    by simp
  have h2: "\<forall>r \<in> set [demo_known].
      \<exists>s. unpack_row demo_config demo_tokenizer demo_classes r = Inr s"
    by (simp add: demo_unpack)
  have h3: "unpack_row demo_config demo_tokenizer demo_classes demo_unknown = Inl (KeyError ''zz'')"
    by (rule demo_unpack)
  have h4: "(0 :: nat) < 2" by simp
  note inst = unpack_failure_aborts [OF h1 h2 h3 h4, of "[]" demo_learner demo_world]
  from inst have "iterate (get_test_dataset (as_datapipe [demo_known, demo_unknown, demo_known])
                (unpack_row demo_config demo_tokenizer demo_classes))
        (worker_ctx [] NUM_TEST_WORKERS 0)
      = \<lparr>yielded = map (projr \<circ> unpack_row demo_config demo_tokenizer demo_classes) [demo_known],
         raised = Some (KeyError ''zz'')\<rparr>"
    by (rule conjunct1)
  then have a: "iterate (get_test_dataset (as_datapipe [demo_known, demo_unknown, demo_known])
                (unpack_row demo_config demo_tokenizer demo_classes))
        (worker_ctx [] NUM_TEST_WORKERS 0)
      = \<lparr>yielded = [\<lparr>input_ids = [101, 7, 102, 0], attention_mask = [1, 1, 1, 0],
                      token_type_ids = [0, 0, 0, 0], targets = 0\<rparr>],
         raised = Some (KeyError ''zz'')\<rparr>"
    by (simp add: demo_unpack)
  from inst have b: "test demo_learner demo_world
        (DataLoader (get_test_dataset (as_datapipe [demo_known, demo_unknown, demo_known])
                       (unpack_row demo_config demo_tokenizer demo_classes))
           2 []) None
      = Inl (KeyError ''zz'')"
    by (rule conjunct1 [OF conjunct2])
  from h2 have h2': "\<exists>s. unpack_row demo_config demo_tokenizer demo_classes demo_known = Inr s"
    by simp
  from h1 h2' h3 h4 a b show ?thesis by (intro conjI)
qed

end
